theory Spec2Isabelle
  imports Main "HOL-Library.Word"
begin

unbundle bit_operations_syntax

section \<open>Data model\<close>

text \<open>
  Go's \<open>net.IP\<close> and \<open>net.IPMask\<close> are byte slices. An IPv4 address held in
  four bytes is the list of its octets, most significant first.
\<close>

type_synonym byte = "8 word"
type_synonym uint32 = "32 word"
type_synonym IP = "byte list"
type_synonym IPMask = "byte list"

text \<open>
  The errors of the calculator are built with \<open>fmt.Errorf\<close>; each constructor stands for
  one message of the source. \<open>IndexOutOfRange\<close> is the run-time panic of a slice read
  past its length.
\<close>

datatype error =
    EmptyCIDR
  | BadCIDRNotation
  | InvalidIPFormat string
  | IPv6NotSupportedAddress
  | IPv6NotSupportedCIDR
  | InvalidPrefixLength string
  | PrefixOutOfRange int
  | InvalidCIDR string
  | IndexOutOfRange

record NetworkInfo =
  Network :: "IP \<times> IPMask"
  NetworkID :: IP
  BroadcastAddr :: IP
  SubnetMask :: IPMask
  WildcardMask :: IPMask
  FirstUsableIP :: IP
  LastUsableIP :: IP
  TotalHosts :: uint32
  PrefixLength :: int

record SubnetInfo =
  SubnetNetworkID :: IP
  CIDR :: string
  SubnetBroadcastAddr :: IP

section \<open>Address arithmetic\<close>

definition calculateWildcardMask :: "IPMask \<Rightarrow> IPMask" where
  "calculateWildcardMask subnetMask = map (\<lambda>b. NOT b) subnetMask"

text \<open>
  \<open>broadcast[i] = networkID[i] | wildcardMask[i]\<close> for every index of \<open>networkID\<close>;
  the read of \<open>wildcardMask[i]\<close> panics when the mask is the shorter slice.
\<close>

definition calculateBroadcastAddress :: "IP \<Rightarrow> IPMask \<Rightarrow> error + IP" where
  "calculateBroadcastAddress networkID wildcardMask =
     (if length wildcardMask < length networkID then Inl IndexOutOfRange
      else Inr (map (\<lambda>i. networkID ! i OR wildcardMask ! i) [0..<length networkID]))"

text \<open>
  The loop of \<open>incrementIP\<close> runs \<open>i\<close> from \<open>len(result) - 1\<close> down to \<open>0\<close>; the
  second argument of \<open>incrementLoop\<close> is \<open>i + 1\<close>.
\<close>

fun incrementLoop :: "IP \<Rightarrow> nat \<Rightarrow> IP" where
  "incrementLoop result 0 = result"
| "incrementLoop result (Suc i) =
     (let result' = result[i := result ! i + 1]
      in if result' ! i \<noteq> 0 then result' else incrementLoop result' i)"

definition incrementIP :: "IP \<Rightarrow> IP" where
  "incrementIP ip = incrementLoop ip (length ip)"

fun decrementLoop :: "IP \<Rightarrow> nat \<Rightarrow> IP" where
  "decrementLoop result 0 = result"
| "decrementLoop result (Suc i) =
     (if result ! i \<noteq> 0 then result[i := result ! i - 1]
      else decrementLoop (result[i := 255]) i)"

definition decrementIP :: "IP \<Rightarrow> IP" where
  "decrementIP ip = decrementLoop ip (length ip)"

text \<open>
  Go's \<open>x << uint(n)\<close> on a \<open>uint32\<close>: a count of 32 or more gives 0, and a negative
  \<open>n\<close> converts to a count of at least \<open>2^63\<close>.
\<close>

definition shl_u32 :: "uint32 \<Rightarrow> int \<Rightarrow> uint32" where
  "shl_u32 x n = (if 0 \<le> n \<and> n < 32 then push_bit (nat n) x else 0)"

text \<open>The big-endian conversion written out in \<open>addToIP\<close>.\<close>

definition ipUint32 :: "byte \<Rightarrow> byte \<Rightarrow> byte \<Rightarrow> byte \<Rightarrow> uint32" where
  "ipUint32 b0 b1 b2 b3 =
     push_bit 24 (ucast b0) + push_bit 16 (ucast b1) + push_bit 8 (ucast b2) + ucast b3"

definition uint32Bytes :: "uint32 \<Rightarrow> IP" where
  "uint32Bytes w = [ucast (drop_bit 24 w), ucast (drop_bit 16 w), ucast (drop_bit 8 w), ucast w]"

text \<open>
  \<open>addToIP\<close> rewrites the first four bytes of a copy of \<open>ip\<close>; a slice shorter than
  four bytes panics at \<open>result[0..3]\<close>.
\<close>

definition addToIP :: "IP \<Rightarrow> uint32 \<Rightarrow> error + IP" where
  "addToIP ip v =
     (if length ip < 4 then Inl IndexOutOfRange
      else Inr (uint32Bytes (ipUint32 (ip ! 0) (ip ! 1) (ip ! 2) (ip ! 3) + v) @ drop 4 ip))"

section \<open>Usable range and host count\<close>

definition calculateUsableRange :: "NetworkInfo \<Rightarrow> NetworkInfo" where
  "calculateUsableRange info =
     (if PrefixLength info = 32 then
        info\<lparr>FirstUsableIP := NetworkID info, LastUsableIP := NetworkID info, TotalHosts := 1\<rparr>
      else if PrefixLength info = 31 then
        info\<lparr>FirstUsableIP := NetworkID info, LastUsableIP := BroadcastAddr info, TotalHosts := 2\<rparr>
      else
        (let hostBits = 32 - PrefixLength info
         in info\<lparr>FirstUsableIP := incrementIP (NetworkID info),
                 LastUsableIP := decrementIP (BroadcastAddr info),
                 TotalHosts := (if hostBits \<ge> 30 then shl_u32 1 hostBits - 2
                                else shl_u32 1 hostBits - 2)\<rparr>))"

text \<open>The 32-bit number a four-byte address denotes, as \<open>addToIP\<close> reads it.\<close>

definition ipToUint32 :: "IP \<Rightarrow> uint32" where
  "ipToUint32 ip = ipUint32 (ip ! 0) (ip ! 1) (ip ! 2) (ip ! 3)"

section \<open>The standard library: masks\<close>

text \<open>
  The calculator calls Go's \<open>net\<close>, \<open>strconv\<close> and \<open>strings\<close> packages. Their
  functions are modelled here as the library documents and implements them (Go 1.19, the
  version the repository asks for). A \<open>nil\<close> slice is the empty list.
\<close>

definition v4InV6Prefix :: IP where
  "v4InV6Prefix = [0, 0, 0, 0, 0, 0, 0, 0, 0, 0, 255, 255]"

definition IPv4 :: "byte \<Rightarrow> byte \<Rightarrow> byte \<Rightarrow> byte \<Rightarrow> IP" where
  "IPv4 a b c d = v4InV6Prefix @ [a, b, c, d]"

text \<open>\<open>ip.To4()\<close>: the four-byte form of an IPv4 address, \<open>None\<close> for \<open>nil\<close>.\<close>

definition To4 :: "IP \<Rightarrow> IP option" where
  "To4 ip =
     (if length ip = 4 then Some ip
      else if length ip = 16 \<and> take 12 ip = v4InV6Prefix then Some (drop 12 ip)
      else None)"

text \<open>
  The loop of \<open>net.CIDRMask\<close>: \<open>l\<close> bytes are still to fill and \<open>n\<close> one-bits are
  still to place.
\<close>

fun cidrMaskLoop :: "nat \<Rightarrow> nat \<Rightarrow> IPMask" where
  "cidrMaskLoop 0 n = []"
| "cidrMaskLoop (Suc l) n =
     (if n \<ge> 8 then 255 # cidrMaskLoop l (n - 8)
      else NOT (drop_bit n (255 :: byte)) # cidrMaskLoop l 0)"

definition CIDRMask :: "int \<Rightarrow> int \<Rightarrow> IPMask" where
  "CIDRMask ones bits =
     (if bits \<noteq> 32 \<and> bits \<noteq> 128 then []
      else if ones < 0 \<or> ones > bits then []
      else cidrMaskLoop (nat (bits div 8)) (nat ones))"

text \<open>\<open>ip.Mask(mask)\<close>; the result is \<open>nil\<close> when the lengths do not fit.\<close>

definition allFF :: "byte list \<Rightarrow> bool" where
  "allFF bs = list_all (\<lambda>b. b = 255) bs"

definition Mask :: "IP \<Rightarrow> IPMask \<Rightarrow> IP" where
  "Mask ip0 mask0 =
     (let mask = (if length mask0 = 16 \<and> length ip0 = 4 \<and> allFF (take 12 mask0)
                  then drop 12 mask0 else mask0);
          ip = (if length mask = 4 \<and> length ip0 = 16 \<and> take 12 ip0 = v4InV6Prefix
                then drop 12 ip0 else ip0)
      in if length ip \<noteq> length mask then []
         else map (\<lambda>i. ip ! i AND mask ! i) [0..<length ip])"

text \<open>
  \<open>mask.Size()\<close> through \<open>simpleMaskLength\<close>. The inner loop counts the leading
  one-bits of the first byte that is not \<open>0xff\<close>, shifting it left.
\<close>

function countLeadingOnes :: "byte \<Rightarrow> int \<Rightarrow> int \<times> byte" where
  "countLeadingOnes v n =
     (if v AND 128 \<noteq> 0 then countLeadingOnes (push_bit 1 v) (n + 1) else (n, v))"
  by pat_completeness auto
termination
proof (relation "measure (\<lambda>(v, n). unat v)")
  show "wf (measure (\<lambda>(v :: byte, n :: int). unat v))" by simp
next
  fix v :: byte and n :: int
  assume a: "v AND 128 \<noteq> 0"
  define u where "u = unat v"
  define t where "t = take_bit 7 u"
  have "bit v 7"
    using a and_exp_eq_0_iff_not_bit[of v 7] by simp
  then have b: "bit u 7"
    by (simp add: u_def bit_unsigned_iff)
  have "u = take_bit (Suc 7) u"
    using unsigned_less[of v, where 'a=nat] by (simp add: u_def take_bit_nat_eq_self)
  also have "\<dots> = 128 + t"
    using b take_bit_Suc_from_most[of 7 u] by (simp add: t_def)
  finally have u: "u = 128 + t" .
  have t: "t < 128"
    using take_bit_nat_less_exp[of 7 u] by (simp add: t_def)
  have "unat (push_bit 1 v) = take_bit 8 (push_bit 1 u)"
    by (simp only: unsigned_push_bit_eq u_def) simp
  also have "\<dots> = (2 * u) mod 256"
    by (simp add: take_bit_eq_mod push_bit_eq_mult mult.commute)
  also have "2 * u = 256 + 2 * t" using u by simp
  also have "(256 + 2 * t) mod 256 = 2 * t" using t by simp
  finally have "unat (push_bit 1 v) < u" using u t by linarith
  then show "((push_bit 1 v, n + 1), (v, n)) \<in> measure (\<lambda>(v, n). unat v)"
    by (simp add: u_def)
qed

declare countLeadingOnes.simps [simp del]

fun simpleMaskLength :: "IPMask \<Rightarrow> int \<Rightarrow> int" where
  "simpleMaskLength [] n = n"
| "simpleMaskLength (v # rest) n =
     (if v = 255 then simpleMaskLength rest (n + 8)
      else (let (n', v') = countLeadingOnes v n
            in if v' \<noteq> 0 then - 1
               else if list_ex (\<lambda>b. b \<noteq> 0) rest then - 1
               else n'))"

definition Size :: "IPMask \<Rightarrow> int \<times> int" where
  "Size m =
     (let ones = simpleMaskLength m 0; bits = int (length m) * 8
      in if ones = - 1 then (0, 0) else (ones, bits))"

section \<open>The standard library: text\<close>

definition isDigit :: "char \<Rightarrow> bool" where
  "isDigit c \<longleftrightarrow> 48 \<le> (of_char c :: nat) \<and> (of_char c :: nat) \<le> 57"

definition digitVal :: "char \<Rightarrow> nat" where
  "digitVal c = of_char c - 48"

text \<open>The value of a string of decimal digits.\<close>

definition decVal :: "string \<Rightarrow> int" where
  "decVal ds = foldl (\<lambda>n c. n * 10 + int (digitVal c)) 0 ds"

text \<open>
  \<open>dtoi\<close> of package \<open>net\<close>: decimal to integer. It returns the number, the count of
  characters consumed and a success flag; \<open>big\<close> is its overflow bound.
\<close>

definition big :: int where
  "big = 16777215"

fun dtoiLoop :: "string \<Rightarrow> int \<Rightarrow> nat \<Rightarrow> int \<times> nat \<times> bool" where
  "dtoiLoop [] n i = (n, i, True)"
| "dtoiLoop (c # cs) n i =
     (if isDigit c then
        (let n' = n * 10 + int (digitVal c)
         in if n' \<ge> big then (big, i, False) else dtoiLoop cs n' (i + 1))
      else (n, i, True))"

definition dtoi :: "string \<Rightarrow> int \<times> nat \<times> bool" where
  "dtoi s =
     (case dtoiLoop s 0 0 of
        (n, i, ok) \<Rightarrow> if \<not> ok then (n, i, False) else if i = 0 then (0, 0, False) else (n, i, True))"

text \<open>\<open>xtoi\<close>: hexadecimal to integer, with the same result shape.\<close>

definition hexVal :: "char \<Rightarrow> nat option" where
  "hexVal c =
     (let k = (of_char c :: nat)
      in if 48 \<le> k \<and> k \<le> 57 then Some (k - 48)
         else if 97 \<le> k \<and> k \<le> 102 then Some (k - 97 + 10)
         else if 65 \<le> k \<and> k \<le> 70 then Some (k - 65 + 10)
         else None)"

fun xtoiLoop :: "string \<Rightarrow> int \<Rightarrow> nat \<Rightarrow> int \<times> nat \<times> bool" where
  "xtoiLoop [] n i = (n, i, True)"
| "xtoiLoop (c # cs) n i =
     (case hexVal c of
        None \<Rightarrow> (n, i, True)
      | Some h \<Rightarrow>
          (let n' = n * 16 + int h
           in if n' \<ge> big then (0, i, False) else xtoiLoop cs n' (i + 1)))"

definition xtoi :: "string \<Rightarrow> int \<times> nat \<times> bool" where
  "xtoi s =
     (case xtoiLoop s 0 0 of
        (n, i, ok) \<Rightarrow> if \<not> ok then (n, i, False) else if i = 0 then (0, i, False) else (n, i, True))"

text \<open>
  \<open>parseIPv4\<close>: four decimal fields of at most 255 separated by single dots, no field
  with a leading zero, nothing after the fourth. The first argument of the loop counts
  the fields still to read, the second is the loop index \<open>i\<close>.
\<close>

fun parseIPv4Loop :: "nat \<Rightarrow> nat \<Rightarrow> string \<Rightarrow> byte list \<Rightarrow> (byte list \<times> string) option" where
  "parseIPv4Loop 0 i s p = Some (p, s)"
| "parseIPv4Loop (Suc k) i s p =
     (if s = [] then None
      else if i > 0 \<and> hd s \<noteq> CHR ''.'' then None
      else (let s1 = (if i > 0 then tl s else s)
            in case dtoi s1 of
                 (n, c, ok) \<Rightarrow>
                   if \<not> ok \<or> n > 255 then None
                   else if c > 1 \<and> hd s1 = CHR ''0'' then None
                   else parseIPv4Loop k (i + 1) (drop c s1) (p @ [word_of_int n])))"

definition parseIPv4 :: "string \<Rightarrow> IP option" where
  "parseIPv4 s =
     (case parseIPv4Loop 4 0 s [] of
        None \<Rightarrow> None
      | Some (p, rest) \<Rightarrow>
          if rest \<noteq> [] then None else Some (IPv4 (p ! 0) (p ! 1) (p ! 2) (p ! 3)))"

text \<open>
  \<open>parseIPv6\<close>. The loop reads hexadecimal groups into \<open>ip\<close> from index \<open>i\<close>;
  \<open>ellipsis\<close> is the index of a \<open>::\<close>, or \<open>-1\<close>. It yields what remains of the
  text, \<open>i\<close>, \<open>ip\<close> and \<open>ellipsis\<close>, or \<open>None\<close> where the source returns \<open>nil\<close>.
\<close>

function parseIPv6Loop :: "string \<Rightarrow> nat \<Rightarrow> IP \<Rightarrow> int \<Rightarrow> (string \<times> nat \<times> IP \<times> int) option" where
  "parseIPv6Loop s i ip ellipsis =
     (if \<not> i < 16 then Some (s, i, ip, ellipsis)
      else case xtoi s of
        (n, c, ok) \<Rightarrow>
          if \<not> ok \<or> n > 65535 then None
          else if c < length s \<and> s ! c = CHR ''.'' then
            (if ellipsis < 0 \<and> i \<noteq> 12 then None
             else if i + 4 > 16 then None
             else case parseIPv4 s of
                    None \<Rightarrow> None
                  | Some ip4 \<Rightarrow>
                      Some ([], i + 4,
                            ip[i := ip4 ! 12, i + 1 := ip4 ! 13, i + 2 := ip4 ! 14, i + 3 := ip4 ! 15],
                            ellipsis))
          else
            (let ip' = ip[i := word_of_int (n div 256), i + 1 := word_of_int n];
                 i' = i + 2;
                 s1 = drop c s
             in if s1 = [] then Some (s1, i', ip', ellipsis)
                else if hd s1 \<noteq> CHR '':'' \<or> length s1 = 1 then None
                else (let s2 = tl s1
                      in if hd s2 = CHR '':'' then
                           (if ellipsis \<ge> 0 then None
                            else if tl s2 = [] then Some ([], i', ip', int i')
                            else parseIPv6Loop (tl s2) i' ip' (int i'))
                         else parseIPv6Loop s2 i' ip' ellipsis)))"
  by pat_completeness auto
termination
  by (relation "measure (\<lambda>(s, i, ip, ellipsis). 16 - i)") auto

declare parseIPv6Loop.simps [simp del]

text \<open>
  The two loops that expand the ellipsis: \<open>ip[j+n] = ip[j]\<close> for \<open>j\<close> from \<open>i - 1\<close>
  down to \<open>ellipsis\<close>, then \<open>ip[j] = 0\<close> for \<open>j\<close> from \<open>ellipsis + n - 1\<close> down to
  \<open>ellipsis\<close>. The last argument counts the steps left.
\<close>

fun moveUp :: "IP \<Rightarrow> nat \<Rightarrow> nat \<Rightarrow> nat \<Rightarrow> IP" where
  "moveUp ip n e 0 = ip"
| "moveUp ip n e (Suc k) = moveUp (ip[e + k + n := ip ! (e + k)]) n e k"

fun zeroFill :: "IP \<Rightarrow> nat \<Rightarrow> nat \<Rightarrow> IP" where
  "zeroFill ip e 0 = ip"
| "zeroFill ip e (Suc k) = zeroFill (ip[e + k := 0]) e k"

definition parseIPv6 :: "string \<Rightarrow> IP option" where
  "parseIPv6 s0 =
     (let lead = (length s0 \<ge> 2 \<and> s0 ! 0 = CHR '':'' \<and> s0 ! 1 = CHR '':'');
          ellipsis0 = (if lead then 0 else - 1);
          s1 = (if lead then drop 2 s0 else s0)
      in if lead \<and> s1 = [] then Some (replicate 16 0)
         else case parseIPv6Loop s1 0 (replicate 16 0) ellipsis0 of
                None \<Rightarrow> None
              | Some (s, i, ip, ellipsis) \<Rightarrow>
                  if s \<noteq> [] then None
                  else if i < 16 then
                    (if ellipsis < 0 then None
                     else (let n = 16 - i; e = nat ellipsis
                           in Some (zeroFill (moveUp ip n e (i - e)) e n)))
                  else if ellipsis \<ge> 0 then None
                  else Some ip)"

text \<open>\<open>net.ParseIP\<close>: the first dot or colon of the text decides the parser.\<close>

fun ParseIP_scan :: "string \<Rightarrow> string \<Rightarrow> IP option" where
  "ParseIP_scan s [] = None"
| "ParseIP_scan s (c # cs) =
     (if c = CHR ''.'' then parseIPv4 s
      else if c = CHR '':'' then parseIPv6 s
      else ParseIP_scan s cs)"

definition ParseIP :: "string \<Rightarrow> IP option" where
  "ParseIP s = ParseIP_scan s s"

text \<open>
  \<open>net.ParseCIDR\<close>: the text is cut at its first slash; the result is the address and
  the network (masked address and mask).
\<close>

definition netParseCIDR :: "string \<Rightarrow> (IP \<times> IP \<times> IPMask) option" where
  "netParseCIDR s =
     (if CHR ''/'' \<notin> set s then None
      else (let addr = takeWhile (\<lambda>c. c \<noteq> CHR ''/'') s;
                mask = tl (dropWhile (\<lambda>c. c \<noteq> CHR ''/'') s);
                ip4 = parseIPv4 addr;
                iplen = (if ip4 = None then 16 else 4);
                ip = (if ip4 = None then parseIPv6 addr else ip4)
            in case dtoi mask of
                 (n, i, ok) \<Rightarrow>
                   if ip = None \<or> \<not> ok \<or> i \<noteq> length mask \<or> n < 0 \<or> n > 8 * iplen then None
                   else (let m = CIDRMask n (8 * iplen)
                         in Some (the ip, Mask (the ip) m, m))))"

text \<open>
  \<open>strconv.Atoi\<close>: an optional sign and at least one decimal digit, nothing else, with a
  value in the range of a 64-bit \<open>int\<close>.
\<close>

definition Atoi :: "string \<Rightarrow> int option" where
  "Atoi s =
     (let neg = (s \<noteq> [] \<and> hd s = CHR ''-'');
          ds = (if s \<noteq> [] \<and> (hd s = CHR ''-'' \<or> hd s = CHR ''+'') then tl s else s)
      in if ds = [] \<or> \<not> list_all isDigit ds then None
         else (let v = (if neg then - decVal ds else decVal ds)
               in if v < - (2 ^ 63) \<or> v > 2 ^ 63 - 1 then None else Some v))"

text \<open>\<open>strings.Split(s, "/")\<close> for a one-character separator.\<close>

fun Split :: "string \<Rightarrow> char \<Rightarrow> string list" where
  "Split [] sep = [[]]"
| "Split (c # cs) sep =
     (if c = sep then [] # Split cs sep
      else (case Split cs sep of
              [] \<Rightarrow> [[c]]
            | p # ps \<Rightarrow> (c # p) # ps))"

text \<open>Decimal text of an integer, as the verb \<open>%d\<close> prints it.\<close>

definition digitChar :: "nat \<Rightarrow> char" where
  "digitChar n = char_of (48 + n)"

fun natText :: "nat \<Rightarrow> string" where
  "natText n = (if n < 10 then [digitChar n] else natText (n div 10) @ [digitChar (n mod 10)])"

declare natText.simps [simp del]

definition intText :: "int \<Rightarrow> string" where
  "intText i = (if i < 0 then CHR ''-'' # natText (nat (- i)) else natText (nat i))"

text \<open>
  \<open>ip.String()\<close>. \<open>ubtoa\<close> writes a byte in decimal; an IPv4 address, in four or in
  sixteen bytes, prints as dotted decimal.
\<close>

definition byteChar :: "byte \<Rightarrow> char" where
  "byteChar b = char_of (unat b)"

definition ubtoa :: "byte \<Rightarrow> string" where
  "ubtoa v =
     (if v < 10 then [byteChar (v + 48)]
      else if v < 100 then [byteChar (v div 10 + 48), byteChar (v mod 10 + 48)]
      else [byteChar (v div 100 + 48), byteChar ((v div 10) mod 10 + 48), byteChar (v mod 10 + 48)])"

definition dotted :: "byte \<Rightarrow> byte \<Rightarrow> byte \<Rightarrow> byte \<Rightarrow> string" where
  "dotted a b c d = ubtoa a @ ''.'' @ ubtoa b @ ''.'' @ ubtoa c @ ''.'' @ ubtoa d"

definition hexDigit :: "nat \<Rightarrow> char" where
  "hexDigit n = ''0123456789abcdef'' ! n"

definition hexString :: "byte list \<Rightarrow> string" where
  "hexString b = concat (map (\<lambda>tn. [hexDigit (unat (drop_bit 4 tn)), hexDigit (unat (tn AND 15))]) b)"

definition appendHex :: "uint32 \<Rightarrow> string" where
  "appendHex i =
     (if i = 0 then ''0''
      else concat (map (\<lambda>j. let v = drop_bit (j * 4) i
                            in if v > 0 then [hexDigit (unat (v AND 15))] else [])
                       [7, 6, 5, 4, 3, 2, 1, 0]))"

text \<open>
  The IPv6 text form: the sixteen bytes as eight groups, the leftmost longest run of two
  or more zero groups replaced by \<open>::\<close>.
\<close>

definition ipGroups :: "IP \<Rightarrow> uint32 list" where
  "ipGroups p = map (\<lambda>k. push_bit 8 (ucast (p ! (2 * k))) OR ucast (p ! (2 * k + 1))) [0..<8]"

definition zeroRun :: "uint32 list \<Rightarrow> nat \<Rightarrow> nat" where
  "zeroRun gs i = length (takeWhile (\<lambda>g. g = 0) (drop i gs))"

definition longestZeroRun :: "uint32 list \<Rightarrow> nat \<times> nat" where
  "longestZeroRun gs =
     foldl (\<lambda>(e0, len) i. if zeroRun gs i > len then (i, zeroRun gs i) else (e0, len))
           (0, 0) [0..<8]"

definition joinColon :: "string list \<Rightarrow> string" where
  "joinColon xs = (case xs of [] \<Rightarrow> [] | x # r \<Rightarrow> x @ concat (map (\<lambda>y. CHR '':'' # y) r))"

definition ipv6Text :: "IP \<Rightarrow> string" where
  "ipv6Text p =
     (let gs = ipGroups p; (e0, len) = longestZeroRun gs
      in if len \<le> 1 then joinColon (map appendHex gs)
         else joinColon (map appendHex (take e0 gs)) @ ''::''
              @ joinColon (map appendHex (drop (e0 + len) gs)))"

definition ipString :: "IP \<Rightarrow> string" where
  "ipString ip =
     (if length ip = 0 then ''<nil>''
      else if length ip \<noteq> 4 \<and> length ip \<noteq> 16 then CHR ''?'' # hexString ip
      else case To4 ip of
             Some p4 \<Rightarrow> dotted (p4 ! 0) (p4 ! 1) (p4 ! 2) (p4 ! 3)
           | None \<Rightarrow> ipv6Text ip)"

section \<open>Parsing a CIDR text\<close>

definition validateCIDRFormat :: "string \<Rightarrow> error option" where
  "validateCIDRFormat cidr =
     (if cidr = [] then Some EmptyCIDR
      else if CHR ''/'' \<notin> set cidr then Some BadCIDRNotation
      else (let parts = Split cidr (CHR ''/'')
            in if length parts \<noteq> 2 then Some BadCIDRNotation
               else (let ipStr = parts ! 0; prefixStr = parts ! 1
                     in case ParseIP ipStr of
                          None \<Rightarrow> Some (InvalidIPFormat ipStr)
                        | Some ip \<Rightarrow>
                            if To4 ip = None then Some IPv6NotSupportedAddress
                            else (case Atoi prefixStr of
                                    None \<Rightarrow> Some (InvalidPrefixLength prefixStr)
                                  | Some prefix \<Rightarrow>
                                      if prefix < 0 \<or> prefix > 32
                                      then Some (PrefixOutOfRange prefix)
                                      else None))))"

definition ParseCIDR :: "string \<Rightarrow> error + NetworkInfo" where
  "ParseCIDR cidr =
     (case validateCIDRFormat cidr of
        Some err \<Rightarrow> Inl err
      | None \<Rightarrow>
          (case netParseCIDR cidr of
             None \<Rightarrow> Inl (InvalidCIDR cidr)
           | Some (ip, netIP, netMask) \<Rightarrow>
               if To4 ip = None then Inl IPv6NotSupportedCIDR
               else (let prefixLength = fst (Size netMask);
                         wildcard = calculateWildcardMask netMask
                     in case calculateBroadcastAddress netIP wildcard of
                          Inl e \<Rightarrow> Inl e
                        | Inr broadcast \<Rightarrow>
                            Inr (calculateUsableRange
                                  \<lparr>Network = (netIP, netMask), NetworkID = netIP,
                                   BroadcastAddr = broadcast, SubnetMask = netMask,
                                   WildcardMask = wildcard, FirstUsableIP = [],
                                   LastUsableIP = [], TotalHosts = 0,
                                   PrefixLength = prefixLength\<rparr>))))"

section \<open>Subnets of the next prefix length\<close>

definition calculateSubnetBroadcast :: "IP \<Rightarrow> int \<Rightarrow> error + IP" where
  "calculateSubnetBroadcast networkID prefixLength =
     (let subnetMask = CIDRMask prefixLength 32;
          wildcardMask = calculateWildcardMask subnetMask
      in if length wildcardMask < length networkID then Inl IndexOutOfRange
         else Inr (map (\<lambda>i. networkID ! i OR wildcardMask ! i) [0..<length networkID]))"

text \<open>
  The count of subnets: \<open>1 << (nextPrefixLength - PrefixLength)\<close>, cut to 100 for a
  prefix of at most 16 when it is larger.
\<close>

definition numSubnetsRaw :: "int \<Rightarrow> uint32" where
  "numSubnetsRaw prefixLength = shl_u32 1 ((prefixLength + 1) - prefixLength)"

definition limitApplies :: "int \<Rightarrow> bool" where
  "limitApplies prefixLength \<longleftrightarrow> prefixLength \<le> 16 \<and> numSubnetsRaw prefixLength > 100"

definition numSubnets :: "int \<Rightarrow> uint32" where
  "numSubnets prefixLength =
     (if limitApplies prefixLength then 100 else numSubnetsRaw prefixLength)"

text \<open>
  The loop of \<open>CalculateSubnets\<close>; its first argument counts the iterations left,
  \<open>numSubnets - i\<close>.
\<close>

fun subnetLoop :: "nat \<Rightarrow> IP \<Rightarrow> int \<Rightarrow> uint32 \<Rightarrow> SubnetInfo list \<Rightarrow> error + SubnetInfo list" where
  "subnetLoop 0 currentNetworkID nextPrefixLength subnetSize subnets = Inr subnets"
| "subnetLoop (Suc k) currentNetworkID nextPrefixLength subnetSize subnets =
     (case calculateSubnetBroadcast currentNetworkID nextPrefixLength of
        Inl e \<Rightarrow> Inl e
      | Inr broadcastAddr \<Rightarrow>
          (let subnet = \<lparr>SubnetNetworkID = currentNetworkID,
                         CIDR = ipString currentNetworkID @ ''/'' @ intText nextPrefixLength,
                         SubnetBroadcastAddr = broadcastAddr\<rparr>
           in case addToIP currentNetworkID subnetSize of
                Inl e \<Rightarrow> Inl e
              | Inr next \<Rightarrow>
                  subnetLoop k next nextPrefixLength subnetSize (subnets @ [subnet])))"

definition CalculateSubnets :: "NetworkInfo \<Rightarrow> error + SubnetInfo list" where
  "CalculateSubnets network =
     (if PrefixLength network \<ge> 32 then Inr []
      else (let nextPrefixLength = PrefixLength network + 1;
                subnetSize = shl_u32 1 (32 - nextPrefixLength)
            in subnetLoop (unat (numSubnets (PrefixLength network))) (NetworkID network)
                 nextPrefixLength subnetSize []))"

section \<open>Error kinds\<close>

text \<open>
  The source reports every failure as a formatted message. This is the reading of its
  messages under the four error kinds of the specification; the run-time panic has none.
\<close>

datatype ErrorKind = EmptyInputError | FormatError | ProtocolError | RangeError

fun errorKind :: "error \<Rightarrow> ErrorKind option" where
  "errorKind EmptyCIDR = Some EmptyInputError"
| "errorKind BadCIDRNotation = Some FormatError"
| "errorKind (InvalidIPFormat s) = Some FormatError"
| "errorKind IPv6NotSupportedAddress = Some ProtocolError"
| "errorKind IPv6NotSupportedCIDR = Some ProtocolError"
| "errorKind (InvalidPrefixLength s) = Some FormatError"
| "errorKind (PrefixOutOfRange n) = Some RangeError"
| "errorKind (InvalidCIDR s) = Some FormatError"
| "errorKind IndexOutOfRange = None"

section \<open>Notions of the specification\<close>

text \<open>
  Bit \<open>i\<close> of a mask, counted from the most significant bit of its first byte.
\<close>

definition maskBit :: "IPMask \<Rightarrow> nat \<Rightarrow> bool" where
  "maskBit m i = bit (m ! (i div 8)) (7 - i mod 8)"

text \<open>
  The addresses from \<open>lo\<close> to \<open>hi\<close>, as the numbers two four-byte addresses denote.
  \<open>descriptor\<close> states the invariants of the descriptor of an IPv4 block with the
  functions of the code: the mask has the prefix length, the wildcard mask is its
  complement, the network id has no host bit set and the broadcast address is the network
  id with every host bit set.
\<close>

definition addrRange :: "IP \<Rightarrow> IP \<Rightarrow> nat set" where
  "addrRange lo hi = {unat (ipToUint32 lo) .. unat (ipToUint32 hi)}"

definition descriptor :: "NetworkInfo \<Rightarrow> bool" where
  "descriptor info \<longleftrightarrow>
     0 \<le> PrefixLength info \<and> PrefixLength info \<le> 32
     \<and> length (NetworkID info) = 4
     \<and> SubnetMask info = CIDRMask (PrefixLength info) 32
     \<and> WildcardMask info = calculateWildcardMask (SubnetMask info)
     \<and> Mask (NetworkID info) (SubnetMask info) = NetworkID info
     \<and> calculateBroadcastAddress (NetworkID info) (WildcardMask info) = Inr (BroadcastAddr info)"

section \<open>Bytes and 32-bit words\<close>

lemma unat_byte_lt: "unat (a::byte) < 256"
  using unsigned_less[of a, where 'a=nat] by simp

lemma unat_ucast_byte: "unat (ucast (a::byte) :: uint32) = unat a"
  using unat_byte_lt[of a] by (simp add: unsigned_ucast_eq take_bit_nat_eq_self)

lemma unat_push_byte:
  assumes n: "n \<le> 24"
  shows "unat (push_bit n (ucast (a::byte)) :: uint32) = unat a * 2 ^ n"
proof -
  have "unat a * 2 ^ n < 256 * 2 ^ n" using unat_byte_lt[of a] by simp
  also have "(256::nat) * 2 ^ n = 2 ^ (8 + n)" by (simp add: power_add)
  also have "\<dots> \<le> 2 ^ 32" using n by (intro power_increasing) auto
  finally have "unat a * 2 ^ n < 2 ^ 32" .
  then show ?thesis
    unfolding unsigned_push_bit_eq unat_ucast_byte
    by (simp add: push_bit_eq_mult take_bit_nat_eq_self)
qed

lemma ipUint32_or:
  "ipUint32 a b c d =
     ((push_bit 24 (ucast a) OR push_bit 16 (ucast b)) OR push_bit 8 (ucast c)) OR ucast d"
proof -
  have 1: "push_bit 24 (ucast a :: uint32) + push_bit 16 (ucast b)
         = push_bit 24 (ucast a) OR push_bit 16 (ucast b)"
    by (rule disjunctive_add) (auto simp: bit_simps dest: bit_imp_le_length)
  have 2: "(push_bit 24 (ucast a :: uint32) OR push_bit 16 (ucast b)) + push_bit 8 (ucast c)
         = (push_bit 24 (ucast a) OR push_bit 16 (ucast b)) OR push_bit 8 (ucast c)"
    by (rule disjunctive_add) (auto simp: bit_simps dest: bit_imp_le_length)
  have 3: "((push_bit 24 (ucast a :: uint32) OR push_bit 16 (ucast b)) OR push_bit 8 (ucast c))
             + ucast d
         = ((push_bit 24 (ucast a) OR push_bit 16 (ucast b)) OR push_bit 8 (ucast c)) OR ucast d"
    by (rule disjunctive_add) (auto simp: bit_simps dest: bit_imp_le_length)
  show ?thesis unfolding ipUint32_def 1 2 3 ..
qed

lemma bit_ipUint32:
  "bit (ipUint32 a b c d) n \<longleftrightarrow>
     (n < 8 \<and> bit d n) \<or> (8 \<le> n \<and> n < 16 \<and> bit c (n - 8)) \<or>
     (16 \<le> n \<and> n < 24 \<and> bit b (n - 16)) \<or> (24 \<le> n \<and> n < 32 \<and> bit a (n - 24))"
  unfolding ipUint32_or
  by (auto simp: bit_simps dest: bit_imp_le_length)

lemma unat_ipUint32:
  "unat (ipUint32 a b c d) = unat a * 2 ^ 24 + unat b * 2 ^ 16 + unat c * 2 ^ 8 + unat d"
proof -
  have "unat a * 2 ^ 24 + unat b * 2 ^ 16 + unat c * 2 ^ 8 + unat d < 2 ^ 32"
    using unat_byte_lt[of a] unat_byte_lt[of b] unat_byte_lt[of c] unat_byte_lt[of d] by simp
  then show ?thesis
    unfolding ipUint32_def
    by (simp add: unat_word_ariths unat_push_byte unat_ucast_byte)
qed

lemma ipUint32_uint32Bytes:
  "ipUint32 (ucast (drop_bit 24 w)) (ucast (drop_bit 16 w)) (ucast (drop_bit 8 w)) (ucast w) = w"
proof (rule bit_word_eqI)
  fix n assume "n < LENGTH(32)"
  then consider "n < 8" | "8 \<le> n" "n < 16" | "16 \<le> n" "n < 24" | "24 \<le> n" "n < 32"
    by fastforce
  then show "bit (ipUint32 (ucast (drop_bit 24 w)) (ucast (drop_bit 16 w))
                    (ucast (drop_bit 8 w)) (ucast w)) n = bit w n"
    by cases (auto simp add: bit_ipUint32 bit_simps)
qed

lemma uint32Bytes_ipUint32: "uint32Bytes (ipUint32 a b c d) = [a, b, c, d]"
proof -
  have "ucast (drop_bit 24 (ipUint32 a b c d)) = a"
    by (rule bit_word_eqI) (simp add: bit_ipUint32 bit_simps)
  moreover have "ucast (drop_bit 16 (ipUint32 a b c d)) = b"
    by (rule bit_word_eqI) (simp add: bit_ipUint32 bit_simps)
  moreover have "ucast (drop_bit 8 (ipUint32 a b c d)) = c"
    by (rule bit_word_eqI) (simp add: bit_ipUint32 bit_simps)
  moreover have "ucast (ipUint32 a b c d) = d"
    by (rule bit_word_eqI) (simp add: bit_ipUint32 bit_simps)
  ultimately show ?thesis by (simp add: uint32Bytes_def)
qed

lemma length4E:
  assumes "length (ip :: 'a list) = 4"
  obtains a b c d where "ip = [a, b, c, d]"
proof -
  from assms obtain a r1 where 1: "ip = a # r1" "length r1 = 3" by (cases ip) auto
  then obtain b r2 where 2: "r1 = b # r2" "length r2 = 2" by (cases r1) auto
  then obtain c r3 where 3: "r2 = c # r3" "length r3 = 1" by (cases r2) auto
  then obtain d where "r3 = [d]" by (cases r3) auto
  with 1 2 3 that show thesis by simp
qed

lemma ipToUint32_4 [simp]: "ipToUint32 [a, b, c, d] = ipUint32 a b c d"
  by (simp add: ipToUint32_def)

lemma uint32Bytes_ipToUint32: "length ip = 4 \<Longrightarrow> uint32Bytes (ipToUint32 ip) = ip"
  by (erule length4E) (simp add: uint32Bytes_ipUint32)

lemma ipToUint32_uint32Bytes [simp]: "ipToUint32 (uint32Bytes w) = w"
  by (simp add: uint32Bytes_def ipUint32_uint32Bytes)

lemma length_uint32Bytes [simp]: "length (uint32Bytes w) = 4"
  by (simp add: uint32Bytes_def)

lemma ipToUint32_inj:
  "length ip = 4 \<Longrightarrow> length ip' = 4 \<Longrightarrow> ipToUint32 ip = ipToUint32 ip' \<Longrightarrow> ip = ip'"
  by (metis uint32Bytes_ipToUint32)

section \<open>Increment and decrement\<close>

lemma incrementIP4:
  "incrementIP [a, b, c, d] =
     (if d + 1 \<noteq> 0 then [a, b, c, d + 1] else if c + 1 \<noteq> 0 then [a, b, c + 1, 0]
      else if b + 1 \<noteq> 0 then [a, b + 1, 0, 0] else [a + 1, 0, 0, 0])"
  by (simp add: incrementIP_def eval_nat_numeral Let_def)

lemma decrementIP4:
  "decrementIP [a, b, c, d] =
     (if d \<noteq> 0 then [a, b, c, d - 1] else if c \<noteq> 0 then [a, b, c - 1, 255]
      else if b \<noteq> 0 then [a, b - 1, 255, 255]
      else if a \<noteq> 0 then [a - 1, 255, 255, 255] else [255, 255, 255, 255])"
  by (simp add: decrementIP_def eval_nat_numeral Let_def)

lemma length_incrementLoop [simp]: "length (incrementLoop r k) = length r"
  by (induction k arbitrary: r) (simp_all add: Let_def)

lemma length_decrementLoop [simp]: "length (decrementLoop r k) = length r"
  by (induction k arbitrary: r) simp_all

lemma length_incrementIP [simp]: "length (incrementIP ip) = length ip"
  by (simp add: incrementIP_def)

lemma length_decrementIP [simp]: "length (decrementIP ip) = length ip"
  by (simp add: decrementIP_def)

lemma byte_succ_zero: "(x::byte) + 1 = 0 \<longleftrightarrow> unat x = 255"
proof
  assume "x + 1 = 0"
  then have "x = -1" by (simp add: eq_neg_iff_add_eq_0)
  then show "unat x = 255" by (simp add: unsigned_minus_1_eq_mask mask_eq_exp_minus_1)
next
  assume "unat x = 255"
  then have "unat x = unat (255::byte)" by simp
  then have "x = 255" by (rule unsigned_word_eqI)
  then show "x + 1 = 0" by simp
qed

lemma unat_byte_succ: "unat ((x::byte) + 1) = (if unat x = 255 then 0 else unat x + 1)"
  using unat_byte_lt[of x] by (auto simp: unat_word_ariths)

lemma unat_byte_pred: "unat ((x::byte) - 1) = (if unat x = 0 then 255 else unat x - 1)"
proof (cases "x = 0")
  case True
  then show ?thesis by (simp add: unsigned_minus_1_eq_mask mask_eq_exp_minus_1)
next
  case False
  then show ?thesis by (simp add: unat_minus_one unat_eq_0)
qed

lemma ipUint32_increment:
  assumes "incrementIP [a, b, c, d] = [a', b', c', d']"
  shows "ipUint32 a' b' c' d' = ipUint32 a b c d + 1"
proof (rule unsigned_word_eqI[where 'a=nat])
  have bnd: "unat a < 256" "unat b < 256" "unat c < 256" "unat d < 256"
    by (rule unat_byte_lt)+
  from assms bnd show "unat (ipUint32 a' b' c' d') = unat (ipUint32 a b c d + 1)"
    by (auto simp: unat_word_ariths(1)[where 'a=32] unat_ipUint32 incrementIP4 byte_succ_zero
                   unat_byte_succ split: if_splits)
qed

lemma ipUint32_decrement:
  assumes "decrementIP [a, b, c, d] = [a', b', c', d']"
  shows "ipUint32 a' b' c' d' = ipUint32 a b c d - 1"
proof -
  have bnd: "unat a < 256" "unat b < 256" "unat c < 256" "unat d < 256"
    by (rule unat_byte_lt)+
  have "unat (ipUint32 a' b' c' d' + 1) = unat (ipUint32 a b c d)"
    using assms bnd
    by (auto simp: unat_word_ariths(1)[where 'a=32] unat_ipUint32 decrementIP4
                   unat_eq_0[symmetric] unat_byte_pred split: if_splits)
  then have "ipUint32 a' b' c' d' + 1 = ipUint32 a b c d" by (rule unsigned_word_eqI)
  then show ?thesis using add_diff_cancel_right'[of "ipUint32 a' b' c' d'" 1] by simp
qed

lemma ipToUint32_incrementIP:
  assumes "length ip = 4"
  shows "ipToUint32 (incrementIP ip) = ipToUint32 ip + 1"
proof -
  from assms obtain a b c d where ip: "ip = [a, b, c, d]" by (rule length4E)
  have "length (incrementIP ip) = 4" using assms by simp
  then obtain a' b' c' d' where r: "incrementIP ip = [a', b', c', d']" by (rule length4E)
  with ip show ?thesis using ipUint32_increment[of a b c d a' b' c' d'] by simp
qed

lemma ipToUint32_decrementIP:
  assumes "length ip = 4"
  shows "ipToUint32 (decrementIP ip) = ipToUint32 ip - 1"
proof -
  from assms obtain a b c d where ip: "ip = [a, b, c, d]" by (rule length4E)
  have "length (decrementIP ip) = 4" using assms by simp
  then obtain a' b' c' d' where r: "decrementIP ip = [a', b', c', d']" by (rule length4E)
  with ip show ?thesis using ipUint32_decrement[of a b c d a' b' c' d'] by simp
qed

lemma ipToUint32_max: "ipToUint32 [255, 255, 255, 255] = - 1"
  by (simp add: ipUint32_def)

lemma ipToUint32_zero: "ipToUint32 [0, 0, 0, 0] = 0"
  by (simp add: ipUint32_def)

text \<open>
  Claim C10. \<open>incrementIP\<close> and \<open>decrementIP\<close> return an address for every four-byte
  address and work modulo \<open>2^32\<close>: the successor of 255.255.255.255 is 0.0.0.0, the
  predecessor of 0.0.0.0 is 255.255.255.255, and on every other address the number
  denoted by the four bytes goes up, respectively down, by exactly one.
\<close>

theorem increment_decrement_wrap:
  assumes "length ip = 4"
  shows "length (incrementIP ip) = 4 \<and> length (decrementIP ip) = 4
       \<and> ipToUint32 (incrementIP ip) = ipToUint32 ip + 1
       \<and> ipToUint32 (decrementIP ip) = ipToUint32 ip - 1
       \<and> incrementIP [255, 255, 255, 255] = [0, 0, 0, 0]
       \<and> decrementIP [0, 0, 0, 0] = [255, 255, 255, 255]
       \<and> (ip \<noteq> [255, 255, 255, 255] \<longrightarrow>
            unat (ipToUint32 (incrementIP ip)) = unat (ipToUint32 ip) + 1)
       \<and> (ip \<noteq> [0, 0, 0, 0] \<longrightarrow>
            unat (ipToUint32 (decrementIP ip)) + 1 = unat (ipToUint32 ip))"
proof -
  have inc: "ipToUint32 (incrementIP ip) = ipToUint32 ip + 1"
    using assms by (rule ipToUint32_incrementIP)
  have dec: "ipToUint32 (decrementIP ip) = ipToUint32 ip - 1"
    using assms by (rule ipToUint32_decrementIP)
  have up: "unat (ipToUint32 (incrementIP ip)) = unat (ipToUint32 ip) + 1"
    if "ip \<noteq> [255, 255, 255, 255]"
  proof -
    have "ipToUint32 ip \<noteq> - 1"
      using that assms ipToUint32_inj[of ip "[255, 255, 255, 255]"] ipToUint32_max by auto
    then have "1 + ipToUint32 ip \<noteq> 0"
      by (simp add: add_eq_0_iff)
    then have "unat (1 + ipToUint32 ip) = Suc (unat (ipToUint32 ip))" by (rule unatSuc)
    then show ?thesis by (simp add: inc add.commute)
  qed
  have down: "unat (ipToUint32 (decrementIP ip)) + 1 = unat (ipToUint32 ip)"
    if "ip \<noteq> [0, 0, 0, 0]"
  proof -
    have nz: "ipToUint32 ip \<noteq> 0"
      using that assms ipToUint32_inj[of ip "[0, 0, 0, 0]"] ipToUint32_zero by auto
    then have "unat (ipToUint32 ip - 1) = unat (ipToUint32 ip) - 1" by (rule unat_minus_one)
    moreover have "0 < unat (ipToUint32 ip)" using nz by (simp add: unat_gt_0)
    ultimately show ?thesis by (simp add: dec)
  qed
  show ?thesis
    using assms inc dec up down by (simp add: incrementIP4 decrementIP4)
qed

theorem increment_decrement_wrap_witness:
  "length [192, 168, 1, 255 :: byte] = 4
   \<and> ipToUint32 (incrementIP [192, 168, 1, 255]) = ipToUint32 [192, 168, 1, 255] + 1
   \<and> ipToUint32 (decrementIP [192, 168, 1, 255]) = ipToUint32 [192, 168, 1, 255] - 1
   \<and> incrementIP [192, 168, 1, 255] = [192, 168, 2, 0]
   \<and> decrementIP [192, 168, 1, 255] = [192, 168, 1, 254]"
  using increment_decrement_wrap[of "[192, 168, 1, 255]"]
  by (simp add: incrementIP4 decrementIP4)

section \<open>Host count\<close>

lemma unat_2p:
  assumes "k < 32"
  shows "unat ((2::uint32) ^ k) = 2 ^ k"
proof -
  have "unat (push_bit k (1::uint32)) = 2 ^ k"
    unfolding unsigned_push_bit_eq using assms by (simp add: take_bit_nat_eq_self)
  then show ?thesis by simp
qed

lemma shl_u32_one:
  assumes "1 \<le> p" "p \<le> 32"
  shows "unat (shl_u32 1 (32 - p)) = 2 ^ nat (32 - p)"
  using assms by (simp add: shl_u32_def unat_2p)

lemma hostCount:
  assumes "0 \<le> p" "p \<le> 30"
  shows "int (unat (shl_u32 1 (32 - p) - 2)) = 2 ^ nat (32 - p) - 2"
proof (cases "p = 0")
  case True
  then show ?thesis by (simp add: shl_u32_def)
next
  case False
  define k where "k = nat (32 - p)"
  have k: "2 \<le> k" "k < 32" using assms False by (auto simp: k_def)
  have s: "shl_u32 1 (32 - p) = 2 ^ k" using assms False by (simp add: shl_u32_def k_def)
  have u: "unat ((2::uint32) ^ k) = 2 ^ k" using k by (simp add: unat_2p)
  have "(2::nat) ^ 1 \<le> 2 ^ k" using k by (intro power_increasing) auto
  then have ge: "(2::nat) \<le> 2 ^ k" by simp
  then have "(2::uint32) \<le> 2 ^ k" by (simp add: word_le_nat_alt u)
  then have "unat ((2::uint32) ^ k - 2) = 2 ^ k - 2" by (simp add: unat_sub u)
  then show ?thesis using ge by (simp add: s k_def[symmetric] of_nat_diff)
qed

text \<open>
  Claim C1. For a descriptor with a prefix length from 0 to 32, \<open>calculateUsableRange\<close>
  follows the three-way policy: at 32 the first and last usable address are the network
  id and the host count is 1; at 31 they are the network id and the broadcast address and
  the count is 2; from 0 to 30 they are the successor of the network id and the
  predecessor of the broadcast address, and the count is \<open>2^(32 - prefix) - 2\<close>. The
  network id, the broadcast address and the prefix length are left as they were.
\<close>

theorem usable_range_policy:
  assumes "0 \<le> PrefixLength info" "PrefixLength info \<le> 32"
  shows "(PrefixLength info = 32 \<longrightarrow>
            FirstUsableIP (calculateUsableRange info) = NetworkID info
          \<and> LastUsableIP (calculateUsableRange info) = NetworkID info
          \<and> TotalHosts (calculateUsableRange info) = 1)
       \<and> (PrefixLength info = 31 \<longrightarrow>
            FirstUsableIP (calculateUsableRange info) = NetworkID info
          \<and> LastUsableIP (calculateUsableRange info) = BroadcastAddr info
          \<and> TotalHosts (calculateUsableRange info) = 2)
       \<and> (PrefixLength info \<le> 30 \<longrightarrow>
            FirstUsableIP (calculateUsableRange info) = incrementIP (NetworkID info)
          \<and> LastUsableIP (calculateUsableRange info) = decrementIP (BroadcastAddr info)
          \<and> int (unat (TotalHosts (calculateUsableRange info)))
              = 2 ^ nat (32 - PrefixLength info) - 2)
       \<and> NetworkID (calculateUsableRange info) = NetworkID info
       \<and> BroadcastAddr (calculateUsableRange info) = BroadcastAddr info
       \<and> PrefixLength (calculateUsableRange info) = PrefixLength info"
proof -
  have "int (unat (TotalHosts (calculateUsableRange info))) = 2 ^ nat (32 - PrefixLength info) - 2"
    if "PrefixLength info \<le> 30"
    using that assms hostCount[of "PrefixLength info"]
    by (simp add: calculateUsableRange_def Let_def)
  then show ?thesis
    by (simp add: calculateUsableRange_def Let_def)
qed

theorem usable_range_policy_witness:
  "FirstUsableIP (calculateUsableRange
      \<lparr>Network = ([192, 168, 1, 0], [255, 255, 255, 0]), NetworkID = [192, 168, 1, 0],
       BroadcastAddr = [192, 168, 1, 255], SubnetMask = [255, 255, 255, 0],
       WildcardMask = [0, 0, 0, 255], FirstUsableIP = [], LastUsableIP = [],
       TotalHosts = 0, PrefixLength = 24\<rparr>) = [192, 168, 1, 1]
   \<and> LastUsableIP (calculateUsableRange
      \<lparr>Network = ([192, 168, 1, 0], [255, 255, 255, 0]), NetworkID = [192, 168, 1, 0],
       BroadcastAddr = [192, 168, 1, 255], SubnetMask = [255, 255, 255, 0],
       WildcardMask = [0, 0, 0, 255], FirstUsableIP = [], LastUsableIP = [],
       TotalHosts = 0, PrefixLength = 24\<rparr>) = [192, 168, 1, 254]
   \<and> int (unat (TotalHosts (calculateUsableRange
      \<lparr>Network = ([192, 168, 1, 0], [255, 255, 255, 0]), NetworkID = [192, 168, 1, 0],
       BroadcastAddr = [192, 168, 1, 255], SubnetMask = [255, 255, 255, 0],
       WildcardMask = [0, 0, 0, 255], FirstUsableIP = [], LastUsableIP = [],
       TotalHosts = 0, PrefixLength = 24\<rparr>))) = 254"
  using usable_range_policy[of
      "\<lparr>Network = ([192, 168, 1, 0], [255, 255, 255, 0]), NetworkID = [192, 168, 1, 0],
       BroadcastAddr = [192, 168, 1, 255], SubnetMask = [255, 255, 255, 0],
       WildcardMask = [0, 0, 0, 255], FirstUsableIP = [], LastUsableIP = [],
       TotalHosts = 0, PrefixLength = 24\<rparr>"]
  by (simp add: incrementIP4 decrementIP4)

text \<open>
  Claim C2, as stated, fails: \<open>TotalHosts\<close> is a \<open>uint32\<close>, 32 bits wide, and at prefix
  length 0 the shift \<open>1 << 32\<close> leaves the 32-bit range and yields 0 instead of \<open>2^32\<close>.
\<close>

theorem total_hosts_width_counterexample:
  "\<not> (33 \<le> size (TotalHosts (calculateUsableRange
          \<lparr>Network = ([0, 0, 0, 0], [0, 0, 0, 0]), NetworkID = [0, 0, 0, 0],
           BroadcastAddr = [255, 255, 255, 255], SubnetMask = [0, 0, 0, 0],
           WildcardMask = [255, 255, 255, 255], FirstUsableIP = [], LastUsableIP = [],
           TotalHosts = 0, PrefixLength = 0\<rparr>)))
   \<and> \<not> (unat (shl_u32 1 (32 - 0)) = 2 ^ 32)"
  by (simp add: word_size shl_u32_def)

text \<open>
  Claim C2, amended. \<open>TotalHosts\<close> is 32 bits wide, and for every prefix length from 0
  to 30 its value is exactly \<open>2^(32 - prefix) - 2\<close>. From 1 to 30 the shift itself is
  exact; at 0 the shift gives 0 and the subtraction wraps around to 4294967294.
\<close>

theorem total_hosts_value:
  assumes "0 \<le> PrefixLength info" "PrefixLength info \<le> 30"
  shows "size (TotalHosts (calculateUsableRange info)) = 32
       \<and> int (unat (TotalHosts (calculateUsableRange info))) = 2 ^ nat (32 - PrefixLength info) - 2
       \<and> (1 \<le> PrefixLength info \<longrightarrow>
            unat (shl_u32 1 (32 - PrefixLength info)) = 2 ^ nat (32 - PrefixLength info))
       \<and> (PrefixLength info = 0 \<longrightarrow>
            shl_u32 1 (32 - PrefixLength info) = 0
          \<and> TotalHosts (calculateUsableRange info) = 4294967294)"
proof -
  have v: "int (unat (TotalHosts (calculateUsableRange info)))
             = 2 ^ nat (32 - PrefixLength info) - 2"
    using assms hostCount[of "PrefixLength info"]
    by (simp add: calculateUsableRange_def Let_def)
  have e: "unat (shl_u32 1 (32 - PrefixLength info)) = 2 ^ nat (32 - PrefixLength info)"
    if "1 \<le> PrefixLength info"
    using that assms by (intro shl_u32_one) auto
  have z: "shl_u32 1 (32 - PrefixLength info) = 0
         \<and> TotalHosts (calculateUsableRange info) = 4294967294"
    if "PrefixLength info = 0"
    using that by (simp add: calculateUsableRange_def Let_def shl_u32_def)
  show ?thesis using v e z by (simp add: word_size)
qed

theorem total_hosts_value_witness:
  "TotalHosts (calculateUsableRange
      \<lparr>Network = ([0, 0, 0, 0], [0, 0, 0, 0]), NetworkID = [0, 0, 0, 0],
       BroadcastAddr = [255, 255, 255, 255], SubnetMask = [0, 0, 0, 0],
       WildcardMask = [255, 255, 255, 255], FirstUsableIP = [], LastUsableIP = [],
       TotalHosts = 0, PrefixLength = 0\<rparr>) = 4294967294
   \<and> int (unat (TotalHosts (calculateUsableRange
      \<lparr>Network = ([0, 0, 0, 0], [0, 0, 0, 0]), NetworkID = [0, 0, 0, 0],
       BroadcastAddr = [255, 255, 255, 255], SubnetMask = [0, 0, 0, 0],
       WildcardMask = [255, 255, 255, 255], FirstUsableIP = [], LastUsableIP = [],
       TotalHosts = 0, PrefixLength = 0\<rparr>))) = 2 ^ 32 - 2"
  using total_hosts_value[of
      "\<lparr>Network = ([0, 0, 0, 0], [0, 0, 0, 0]), NetworkID = [0, 0, 0, 0],
       BroadcastAddr = [255, 255, 255, 255], SubnetMask = [0, 0, 0, 0],
       WildcardMask = [255, 255, 255, 255], FirstUsableIP = [], LastUsableIP = [],
       TotalHosts = 0, PrefixLength = 0\<rparr>"]
  by simp

section \<open>Masks\<close>

lemma length_cidrMaskLoop [simp]: "length (cidrMaskLoop l n) = l"
  by (induction l arbitrary: n) simp_all

lemma bit_byte_255: "bit (255 :: byte) k \<longleftrightarrow> k < 8"
proof -
  have "(255 :: byte) = - 1" by simp
  then show ?thesis by (simp only: bit_minus_1_iff possible_bit_word) simp
qed

lemma bit_partial_byte:
  assumes "n < 8" "j < 8"
  shows "bit (NOT (drop_bit n (255 :: byte))) (7 - j) \<longleftrightarrow> j < n"
proof -
  have "bit (drop_bit n (255 :: byte)) (7 - j) \<longleftrightarrow> n + (7 - j) < 8"
    using bit_byte_255[of "n + (7 - j)"] by (simp add: bit_drop_bit_eq)
  then show ?thesis using assms by (auto simp: bit_not_iff)
qed

lemma maskBit_cidrMaskLoop:
  "i < 8 * l \<Longrightarrow> maskBit (cidrMaskLoop l n) i \<longleftrightarrow> i < n"
proof (induction l arbitrary: n i)
  case 0
  then show ?case by simp
next
  case (Suc l)
  show ?case
  proof (cases "i < 8")
    case True
    then have d: "i div 8 = 0" "i mod 8 = i" by simp_all
    have "bit (255 :: byte) (7 - i)" using bit_byte_255[of "7 - i"] by simp
    then show ?thesis using True bit_partial_byte[of n i]
      by (auto simp: maskBit_def d)
  next
    case False
    then obtain j where j: "i = j + 8" by (metis le_add_diff_inverse2 not_less)
    then have jl: "j < 8 * l" using Suc.prems by simp
    have d: "i div 8 = Suc (j div 8)" "i mod 8 = j mod 8" using j by simp_all
    have "maskBit (cidrMaskLoop (Suc l) n) i
            = maskBit (cidrMaskLoop l (if n \<ge> 8 then n - 8 else 0)) j"
      by (simp add: maskBit_def d)
    also have "\<dots> \<longleftrightarrow> j < (if n \<ge> 8 then n - 8 else 0)"
      using jl by (rule Suc.IH)
    also have "\<dots> \<longleftrightarrow> i < n" using j by auto
    finally show ?thesis .
  qed
qed

lemma div_mod_31:
  assumes "8 * q \<le> (k::nat)" "k < 8 * q + 8" "q < 4"
  shows "(31 - k) div 8 = 3 - q" "7 - (31 - k) mod 8 = k - 8 * q"
proof -
  define j where "j = 7 - (k - 8 * q)"
  have j: "j < 8" "31 - k = (3 - q) * 8 + j" "k - 8 * q = 7 - j"
    using assms by (auto simp: j_def)
  show "(31 - k) div 8 = 3 - q" using j(1) by (simp add: j(2))
  show "7 - (31 - k) mod 8 = k - 8 * q" using j(1) by (simp add: j(2) j(3))
qed

lemma bit_ipToUint32:
  assumes "length m = 4" "k < 32"
  shows "bit (ipToUint32 m) k \<longleftrightarrow> maskBit m (31 - k)"
proof -
  from assms(1) obtain a b c d where m: "m = [a, b, c, d]" by (rule length4E)
  consider "k < 8" | "8 \<le> k" "k < 16" | "16 \<le> k" "k < 24" | "24 \<le> k" "k < 32"
    using assms(2) by linarith
  then show ?thesis
  proof cases
    case 1
    then show ?thesis using div_mod_31[of 0 k] by (simp add: m bit_ipUint32 maskBit_def)
  next
    case 2
    then show ?thesis using div_mod_31[of 1 k] by (simp add: m bit_ipUint32 maskBit_def)
  next
    case 3
    then show ?thesis using div_mod_31[of 2 k] by (simp add: m bit_ipUint32 maskBit_def)
  next
    case 4
    then show ?thesis using div_mod_31[of 3 k] by (simp add: m bit_ipUint32 maskBit_def)
  qed
qed

lemma CIDRMask32: "0 \<le> p \<Longrightarrow> p \<le> 32 \<Longrightarrow> CIDRMask p 32 = cidrMaskLoop 4 (nat p)"
  by (simp add: CIDRMask_def)

lemma length_CIDRMask32: "0 \<le> p \<Longrightarrow> p \<le> 32 \<Longrightarrow> length (CIDRMask p 32) = 4"
  by (simp add: CIDRMask32)

lemma ipToUint32_CIDRMask:
  assumes "0 \<le> p" "p \<le> 32"
  shows "ipToUint32 (CIDRMask p 32) = NOT (mask (nat (32 - p)))"
proof (rule bit_word_eqI)
  fix k assume "k < LENGTH(32)"
  then have k: "k < 32" by simp
  have "bit (ipToUint32 (CIDRMask p 32)) k \<longleftrightarrow> maskBit (cidrMaskLoop 4 (nat p)) (31 - k)"
    using assms k by (simp add: bit_ipToUint32 CIDRMask32)
  also have "\<dots> \<longleftrightarrow> 31 - k < nat p"
    by (rule maskBit_cidrMaskLoop) simp
  also have "\<dots> \<longleftrightarrow> \<not> k < nat (32 - p)" using assms k by auto
  finally show "bit (ipToUint32 (CIDRMask p 32)) k = bit (NOT (mask (nat (32 - p)) :: uint32)) k"
    using k by (simp add: bit_simps)
qed

lemma range32_cases:
  assumes "(k::nat) < 32"
  obtains "k < 8" | "8 \<le> k" "k < 16" | "16 \<le> k" "k < 24" | "24 \<le> k" "k < 32"
  using assms by linarith

lemma ipUint32_NOT: "ipUint32 (NOT a) (NOT b) (NOT c) (NOT d) = NOT (ipUint32 a b c d)"
proof (rule bit_word_eqI)
  fix k assume "k < LENGTH(32)"
  then have "k < 32" by simp
  then show "bit (ipUint32 (NOT a) (NOT b) (NOT c) (NOT d)) k = bit (NOT (ipUint32 a b c d)) k"
    by (cases rule: range32_cases) (auto simp add: bit_ipUint32 bit_not_iff)
qed

lemma ipUint32_OR:
  "ipUint32 (a OR a') (b OR b') (c OR c') (d OR d') = ipUint32 a b c d OR ipUint32 a' b' c' d'"
proof (rule bit_word_eqI)
  fix k assume "k < LENGTH(32)"
  then have "k < 32" by simp
  then show "bit (ipUint32 (a OR a') (b OR b') (c OR c') (d OR d')) k
           = bit (ipUint32 a b c d OR ipUint32 a' b' c' d') k"
    by (cases rule: range32_cases) (auto simp add: bit_ipUint32 bit_or_iff)
qed

lemma ipUint32_AND:
  "ipUint32 (a AND a') (b AND b') (c AND c') (d AND d') = ipUint32 a b c d AND ipUint32 a' b' c' d'"
proof (rule bit_word_eqI)
  fix k assume "k < LENGTH(32)"
  then have "k < 32" by simp
  then show "bit (ipUint32 (a AND a') (b AND b') (c AND c') (d AND d')) k
           = bit (ipUint32 a b c d AND ipUint32 a' b' c' d') k"
    by (cases rule: range32_cases) (auto simp add: bit_ipUint32 bit_and_iff)
qed

lemma upt4: "[0..<4] = [0, 1, 2, 3]"
  by (simp add: upt_rec)

lemma ipToUint32_map_NOT:
  assumes "length m = 4"
  shows "ipToUint32 (map (\<lambda>b. NOT b) m) = NOT (ipToUint32 m)"
proof -
  from assms obtain a b c d where m: "m = [a, b, c, d]" by (rule length4E)
  show ?thesis unfolding m by (simp add: ipUint32_NOT)
qed

lemma ipToUint32_OR:
  assumes "length x = 4" "length y = 4"
  shows "ipToUint32 (map (\<lambda>i. x ! i OR y ! i) [0..<length x]) = ipToUint32 x OR ipToUint32 y"
proof -
  from assms(1) obtain a b c d where x: "x = [a, b, c, d]" by (rule length4E)
  from assms(2) obtain a' b' c' d' where y: "y = [a', b', c', d']" by (rule length4E)
  show ?thesis unfolding x y by (simp add: upt4 ipUint32_OR)
qed

lemma ipToUint32_AND:
  assumes "length x = 4" "length y = 4"
  shows "ipToUint32 (map (\<lambda>i. x ! i AND y ! i) [0..<length x]) = ipToUint32 x AND ipToUint32 y"
proof -
  from assms(1) obtain a b c d where x: "x = [a, b, c, d]" by (rule length4E)
  from assms(2) obtain a' b' c' d' where y: "y = [a', b', c', d']" by (rule length4E)
  show ?thesis unfolding x y by (simp add: upt4 ipUint32_AND)
qed

lemma ipToUint32_wildcard:
  assumes "0 \<le> p" "p \<le> 32"
  shows "ipToUint32 (calculateWildcardMask (CIDRMask p 32)) = mask (nat (32 - p))"
  using assms
  by (simp add: calculateWildcardMask_def ipToUint32_map_NOT length_CIDRMask32 ipToUint32_CIDRMask)

section \<open>Subnets\<close>

lemma unat_mask32:
  assumes "k < 32"
  shows "unat (mask k :: uint32) = 2 ^ k - 1"
proof -
  have "(1::nat) \<le> 2 ^ k" by simp
  then have "(1::uint32) \<le> 2 ^ k" using assms by (simp add: word_le_nat_alt unat_2p)
  then have "unat ((2::uint32) ^ k - 1) = 2 ^ k - 1" using assms by (simp add: unat_sub unat_2p)
  then show ?thesis by (simp add: mask_eq_exp_minus_1)
qed

lemma unat_disjoint_or:
  fixes x y :: uint32
  assumes "x AND y = 0"
  shows "unat (x OR y) = unat x + unat y"
proof -
  have e: "x + y = x OR y" using assms by (rule disjunctive_add_eq_or)
  have "x \<le> x OR y" by (rule le_word_or2)
  then have "x \<le> x + y" by (simp add: e)
  then have "unat (x + y) = unat x + unat y" by (simp add: unat_plus_simple)
  then show ?thesis by (simp add: e)
qed

lemma split_block:
  fixes N :: uint32
  assumes k: "k < 32" and al: "N AND mask (Suc k) = 0"
  shows "unat (N OR mask k) + 1 = unat N + 2 ^ k"
    and "N + 2 ^ k = N OR 2 ^ k"
    and "unat (N + 2 ^ k) = unat N + 2 ^ k"
    and "(N + 2 ^ k) OR mask k = N OR mask (Suc k)"
    and "unat ((N + 2 ^ k) OR mask k) + 1 = unat N + 2 ^ k + 2 ^ k"
proof -
  have bitN: "\<not> bit N j" if "j \<le> k" for j
  proof
    assume "bit N j"
    then have "bit (N AND mask (Suc k)) j" using that k by (simp add: bit_and_iff bit_mask_iff)
    then show False by (simp add: al)
  qed
  have d1: "N AND mask k = 0"
    by (rule bit_word_eqI) (use bitN in \<open>auto simp: bit_and_iff bit_mask_iff\<close>)
  have d2: "N AND 2 ^ k = 0"
    by (rule bit_word_eqI) (use bitN in \<open>auto simp: bit_and_iff bit_exp_iff\<close>)
  have d3: "(N OR 2 ^ k) AND mask k = 0"
    by (rule bit_word_eqI) (use bitN in \<open>auto simp: bit_and_iff bit_or_iff bit_exp_iff bit_mask_iff\<close>)
  have m: "(1::nat) \<le> 2 ^ k" by simp
  show 1: "unat (N OR mask k) + 1 = unat N + 2 ^ k"
    using m by (simp add: unat_disjoint_or[OF d1] unat_mask32[OF k])
  show 2: "N + 2 ^ k = N OR 2 ^ k" using d2 by (rule disjunctive_add_eq_or)
  show 3: "unat (N + 2 ^ k) = unat N + 2 ^ k"
    by (simp add: 2 unat_disjoint_or[OF d2] unat_2p[OF k])
  show "(N + 2 ^ k) OR mask k = N OR mask (Suc k)"
    unfolding 2
    by (rule bit_word_eqI) (auto simp: bit_or_iff bit_exp_iff bit_mask_iff)
  show "unat ((N + 2 ^ k) OR mask k) + 1 = unat N + 2 ^ k + 2 ^ k"
    using m d3 3 by (simp add: 2 unat_disjoint_or unat_mask32[OF k])
qed

lemma numSubnetsRaw_2: "numSubnetsRaw p = 2"
  by (simp add: numSubnetsRaw_def shl_u32_def)

lemma not_limitApplies: "\<not> limitApplies p"
  by (simp add: limitApplies_def numSubnetsRaw_2)

lemma numSubnets_2: "numSubnets p = 2"
  by (simp add: numSubnets_def not_limitApplies numSubnetsRaw_2)

lemma calculateSubnetBroadcast4:
  assumes "0 \<le> q" "q \<le> 32" "length N = 4"
  shows "\<exists>B. calculateSubnetBroadcast N q = Inr B \<and> length B = 4
           \<and> ipToUint32 B = ipToUint32 N OR mask (nat (32 - q))"
proof -
  let ?w = "calculateWildcardMask (CIDRMask q 32)"
  have lw: "length ?w = 4" using assms by (simp add: calculateWildcardMask_def length_CIDRMask32)
  have "calculateSubnetBroadcast N q = Inr (map (\<lambda>i. N ! i OR ?w ! i) [0..<length N])"
    using assms lw by (simp add: calculateSubnetBroadcast_def Let_def)
  moreover have "ipToUint32 (map (\<lambda>i. N ! i OR ?w ! i) [0..<length N])
        = ipToUint32 N OR mask (nat (32 - q))"
    using ipToUint32_OR[of N ?w] assms lw by (simp add: ipToUint32_wildcard)
  ultimately show ?thesis using assms by auto
qed

lemma addToIP4:
  assumes "length N = 4"
  shows "addToIP N v = Inr (uint32Bytes (ipToUint32 N + v))"
  using assms by (simp add: addToIP_def ipToUint32_def)

lemma To4_4: "length ip = 4 \<Longrightarrow> To4 ip = Some ip"
  by (simp add: To4_def)

lemma ipString4:
  assumes "length ip = 4"
  shows "ipString ip = dotted (ip ! 0) (ip ! 1) (ip ! 2) (ip ! 3)"
  using assms by (simp add: ipString_def To4_4)

lemma shl_u32_size:
  assumes "0 \<le> p" "p < 32"
  shows "shl_u32 1 (31 - p) = 2 ^ nat (31 - p)"
  using assms by (simp add: shl_u32_def)

lemma CalculateSubnets_two:
  assumes p: "0 \<le> PrefixLength info" "PrefixLength info < 32"
      and l: "length (NetworkID info) = 4"
  shows "\<exists>B1 B2.
     CalculateSubnets info =
       Inr [\<lparr>SubnetNetworkID = NetworkID info,
              CIDR = ipString (NetworkID info) @ ''/'' @ intText (PrefixLength info + 1),
              SubnetBroadcastAddr = B1\<rparr>,
            \<lparr>SubnetNetworkID = uint32Bytes (ipToUint32 (NetworkID info) + 2 ^ nat (31 - PrefixLength info)),
              CIDR = ipString (uint32Bytes (ipToUint32 (NetworkID info) + 2 ^ nat (31 - PrefixLength info)))
                       @ ''/'' @ intText (PrefixLength info + 1),
              SubnetBroadcastAddr = B2\<rparr>]
     \<and> length B1 = 4 \<and> length B2 = 4
     \<and> ipToUint32 B1 = ipToUint32 (NetworkID info) OR mask (nat (31 - PrefixLength info))
     \<and> ipToUint32 B2 = (ipToUint32 (NetworkID info) + 2 ^ nat (31 - PrefixLength info))
                          OR mask (nat (31 - PrefixLength info))"
proof -
  let ?N = "NetworkID info" and ?q = "PrefixLength info + 1"
  let ?N2 = "uint32Bytes (ipToUint32 ?N + 2 ^ nat (31 - PrefixLength info))"
  have q: "0 \<le> ?q" "?q \<le> 32" using p by auto
  have e: "nat (32 - ?q) = nat (31 - PrefixLength info)" by simp
  from calculateSubnetBroadcast4[OF q l] obtain B1 where
    B1: "calculateSubnetBroadcast ?N ?q = Inr B1" "length B1 = 4"
        "ipToUint32 B1 = ipToUint32 ?N OR mask (nat (31 - PrefixLength info))"
    unfolding e by blast
  have l2: "length ?N2 = 4" by simp
  from calculateSubnetBroadcast4[OF q l2] obtain B2 where
    B2: "calculateSubnetBroadcast ?N2 ?q = Inr B2" "length B2 = 4"
        "ipToUint32 B2 = ipToUint32 ?N2 OR mask (nat (31 - PrefixLength info))"
    unfolding e by blast
  have two: "unat (numSubnets (PrefixLength info)) = Suc (Suc 0)"
    by (simp add: numSubnets_2)
  have "CalculateSubnets info =
       Inr [\<lparr>SubnetNetworkID = ?N, CIDR = ipString ?N @ ''/'' @ intText ?q,
              SubnetBroadcastAddr = B1\<rparr>,
            \<lparr>SubnetNetworkID = ?N2, CIDR = ipString ?N2 @ ''/'' @ intText ?q,
              SubnetBroadcastAddr = B2\<rparr>]"
    using p by (simp add: CalculateSubnets_def Let_def two shl_u32_size B1(1) B2(1)
                     addToIP4[OF l] addToIP4[OF l2])
  then show ?thesis using B1 B2 by auto
qed

text \<open>
  Claim C3. \<open>CalculateSubnets\<close> returns the empty list for a prefix length of 32 or
  more. For a prefix length \<open>p\<close> from 0 to 31 and a four-byte network id it returns
  exactly two subnets: the count of subnets is 2 and the limit of 100 never applies. The
  first subnet has the network id of the parent, the second has that id moved by
  \<open>2^(32 - (p + 1))\<close> through \<open>addToIP\<close>, and the CIDR text of each is its network id
  in dotted decimal, a slash and \<open>p + 1\<close>.
\<close>

theorem subnets_enumeration:
  "(32 \<le> PrefixLength info \<longrightarrow> CalculateSubnets info = Inr [])
   \<and> (0 \<le> PrefixLength info \<and> PrefixLength info < 32 \<and> length (NetworkID info) = 4 \<longrightarrow>
        (\<exists>s1 s2. CalculateSubnets info = Inr [s1, s2]
           \<and> SubnetNetworkID s1 = NetworkID info
           \<and> addToIP (NetworkID info) (2 ^ nat (32 - (PrefixLength info + 1)))
                 = Inr (SubnetNetworkID s2)
           \<and> ipToUint32 (SubnetNetworkID s2)
                 = ipToUint32 (NetworkID info) + 2 ^ nat (32 - (PrefixLength info + 1))
           \<and> CIDR s1 = ipString (SubnetNetworkID s1) @ ''/'' @ intText (PrefixLength info + 1)
           \<and> CIDR s2 = ipString (SubnetNetworkID s2) @ ''/'' @ intText (PrefixLength info + 1)
           \<and> ipString (SubnetNetworkID s1)
                 = dotted (SubnetNetworkID s1 ! 0) (SubnetNetworkID s1 ! 1)
                          (SubnetNetworkID s1 ! 2) (SubnetNetworkID s1 ! 3)
           \<and> ipString (SubnetNetworkID s2)
                 = dotted (SubnetNetworkID s2 ! 0) (SubnetNetworkID s2 ! 1)
                          (SubnetNetworkID s2 ! 2) (SubnetNetworkID s2 ! 3)))
   \<and> numSubnets (PrefixLength info) = 2
   \<and> \<not> limitApplies (PrefixLength info)"
proof -
  have none: "CalculateSubnets info = Inr []" if "32 \<le> PrefixLength info"
    using that by (simp add: CalculateSubnets_def)
  have two: "\<exists>s1 s2. CalculateSubnets info = Inr [s1, s2]
           \<and> SubnetNetworkID s1 = NetworkID info
           \<and> addToIP (NetworkID info) (2 ^ nat (32 - (PrefixLength info + 1)))
                 = Inr (SubnetNetworkID s2)
           \<and> ipToUint32 (SubnetNetworkID s2)
                 = ipToUint32 (NetworkID info) + 2 ^ nat (32 - (PrefixLength info + 1))
           \<and> CIDR s1 = ipString (SubnetNetworkID s1) @ ''/'' @ intText (PrefixLength info + 1)
           \<and> CIDR s2 = ipString (SubnetNetworkID s2) @ ''/'' @ intText (PrefixLength info + 1)
           \<and> ipString (SubnetNetworkID s1)
                 = dotted (SubnetNetworkID s1 ! 0) (SubnetNetworkID s1 ! 1)
                          (SubnetNetworkID s1 ! 2) (SubnetNetworkID s1 ! 3)
           \<and> ipString (SubnetNetworkID s2)
                 = dotted (SubnetNetworkID s2 ! 0) (SubnetNetworkID s2 ! 1)
                          (SubnetNetworkID s2 ! 2) (SubnetNetworkID s2 ! 3)"
    if p: "0 \<le> PrefixLength info" "PrefixLength info < 32" and l: "length (NetworkID info) = 4"
  proof -
    let ?N = "NetworkID info" and ?p = "PrefixLength info"
    have e: "nat (32 - (?p + 1)) = nat (31 - ?p)" by simp
    from CalculateSubnets_two[OF p l] obtain B1 B2 where
      cs: "CalculateSubnets info =
         Inr [\<lparr>SubnetNetworkID = ?N, CIDR = ipString ?N @ ''/'' @ intText (?p + 1),
                SubnetBroadcastAddr = B1\<rparr>,
              \<lparr>SubnetNetworkID = uint32Bytes (ipToUint32 ?N + 2 ^ nat (31 - ?p)),
                CIDR = ipString (uint32Bytes (ipToUint32 ?N + 2 ^ nat (31 - ?p)))
                         @ ''/'' @ intText (?p + 1),
                SubnetBroadcastAddr = B2\<rparr>]"
      by blast
    have a: "addToIP ?N (2 ^ nat (31 - ?p)) = Inr (uint32Bytes (ipToUint32 ?N + 2 ^ nat (31 - ?p)))"
      using l by (rule addToIP4)
    have d1: "ipString ?N = dotted (?N ! 0) (?N ! 1) (?N ! 2) (?N ! 3)"
      using l by (rule ipString4)
    have d2: "ipString (uint32Bytes (ipToUint32 ?N + 2 ^ nat (31 - ?p)))
        = dotted (uint32Bytes (ipToUint32 ?N + 2 ^ nat (31 - ?p)) ! 0)
                 (uint32Bytes (ipToUint32 ?N + 2 ^ nat (31 - ?p)) ! 1)
                 (uint32Bytes (ipToUint32 ?N + 2 ^ nat (31 - ?p)) ! 2)
                 (uint32Bytes (ipToUint32 ?N + 2 ^ nat (31 - ?p)) ! 3)"
      by (rule ipString4) simp
    show ?thesis
      unfolding e
      apply (rule exI[of _ "\<lparr>SubnetNetworkID = ?N, CIDR = ipString ?N @ ''/'' @ intText (?p + 1),
                SubnetBroadcastAddr = B1\<rparr>"])
      apply (rule exI[of _ "\<lparr>SubnetNetworkID = uint32Bytes (ipToUint32 ?N + 2 ^ nat (31 - ?p)),
                CIDR = ipString (uint32Bytes (ipToUint32 ?N + 2 ^ nat (31 - ?p)))
                         @ ''/'' @ intText (?p + 1),
                SubnetBroadcastAddr = B2\<rparr>"])
      using cs a d1 d2 by simp
  qed
  show ?thesis
    using none two by (simp add: numSubnets_2 not_limitApplies)
qed

theorem subnets_enumeration_witness:
  "CalculateSubnets
      \<lparr>Network = ([192, 168, 1, 0], [255, 255, 255, 0]), NetworkID = [192, 168, 1, 0],
       BroadcastAddr = [192, 168, 1, 255], SubnetMask = [255, 255, 255, 0],
       WildcardMask = [0, 0, 0, 255], FirstUsableIP = [192, 168, 1, 1],
       LastUsableIP = [192, 168, 1, 254], TotalHosts = 254, PrefixLength = 24\<rparr>
     = Inr [\<lparr>SubnetNetworkID = [192, 168, 1, 0], CIDR = ''192.168.1.0/25'',
              SubnetBroadcastAddr = [192, 168, 1, 127]\<rparr>,
            \<lparr>SubnetNetworkID = [192, 168, 1, 128], CIDR = ''192.168.1.128/25'',
              SubnetBroadcastAddr = [192, 168, 1, 255]\<rparr>]
   \<and> CalculateSubnets
      \<lparr>Network = ([10, 0, 0, 1], [255, 255, 255, 255]), NetworkID = [10, 0, 0, 1],
       BroadcastAddr = [10, 0, 0, 1], SubnetMask = [255, 255, 255, 255],
       WildcardMask = [0, 0, 0, 0], FirstUsableIP = [10, 0, 0, 1],
       LastUsableIP = [10, 0, 0, 1], TotalHosts = 1, PrefixLength = 32\<rparr> = Inr []
   \<and> numSubnets 24 = 2 \<and> \<not> limitApplies 24"
proof -
  have "CalculateSubnets
      \<lparr>Network = ([192, 168, 1, 0], [255, 255, 255, 0]), NetworkID = [192, 168, 1, 0],
       BroadcastAddr = [192, 168, 1, 255], SubnetMask = [255, 255, 255, 0],
       WildcardMask = [0, 0, 0, 255], FirstUsableIP = [192, 168, 1, 1],
       LastUsableIP = [192, 168, 1, 254], TotalHosts = 254, PrefixLength = 24\<rparr>
     = Inr [\<lparr>SubnetNetworkID = [192, 168, 1, 0], CIDR = ''192.168.1.0/25'',
              SubnetBroadcastAddr = [192, 168, 1, 127]\<rparr>,
            \<lparr>SubnetNetworkID = [192, 168, 1, 128], CIDR = ''192.168.1.128/25'',
              SubnetBroadcastAddr = [192, 168, 1, 255]\<rparr>]"
    by code_simp
  then show ?thesis
    using subnets_enumeration[of
      "\<lparr>Network = ([10, 0, 0, 1], [255, 255, 255, 255]), NetworkID = [10, 0, 0, 1],
       BroadcastAddr = [10, 0, 0, 1], SubnetMask = [255, 255, 255, 255],
       WildcardMask = [0, 0, 0, 0], FirstUsableIP = [10, 0, 0, 1],
       LastUsableIP = [10, 0, 0, 1], TotalHosts = 1, PrefixLength = 32\<rparr>"]
      subnets_enumeration[of
      "\<lparr>Network = ([192, 168, 1, 0], [255, 255, 255, 0]), NetworkID = [192, 168, 1, 0],
       BroadcastAddr = [192, 168, 1, 255], SubnetMask = [255, 255, 255, 0],
       WildcardMask = [0, 0, 0, 255], FirstUsableIP = [192, 168, 1, 1],
       LastUsableIP = [192, 168, 1, 254], TotalHosts = 254, PrefixLength = 24\<rparr>"]
    by simp
qed

lemma Mask4:
  assumes "length ip = 4" "length m = 4"
  shows "Mask ip m = map (\<lambda>i. ip ! i AND m ! i) [0..<length ip]"
  using assms by (simp add: Mask_def Let_def)

lemma and_not_mask_aligned:
  fixes x :: uint32
  assumes "x AND NOT m = x"
  shows "x AND m = 0"
proof -
  have "x AND m = (x AND NOT m) AND m" by (simp add: assms)
  also have "\<dots> = 0" by (simp add: and.assoc)
  finally show ?thesis .
qed

lemma descriptor_words:
  assumes "descriptor info"
  shows "ipToUint32 (NetworkID info) AND mask (nat (32 - PrefixLength info)) = 0"
    and "ipToUint32 (BroadcastAddr info)
           = ipToUint32 (NetworkID info) OR mask (nat (32 - PrefixLength info))"
    and "length (BroadcastAddr info) = 4"
proof -
  let ?p = "PrefixLength info" and ?N = "NetworkID info"
  from assms have p: "0 \<le> ?p" "?p \<le> 32" and l: "length ?N = 4"
    and m: "SubnetMask info = CIDRMask ?p 32"
    and w: "WildcardMask info = calculateWildcardMask (CIDRMask ?p 32)"
    and a: "Mask ?N (CIDRMask ?p 32) = ?N"
    and b: "calculateBroadcastAddress ?N (calculateWildcardMask (CIDRMask ?p 32))
              = Inr (BroadcastAddr info)"
    by (auto simp: descriptor_def)
  have lm: "length (CIDRMask ?p 32) = 4" using p by (rule length_CIDRMask32)
  have "ipToUint32 (Mask ?N (CIDRMask ?p 32)) = ipToUint32 ?N AND NOT (mask (nat (32 - ?p)))"
    using ipToUint32_AND[OF l lm] p by (simp add: Mask4[OF l lm] ipToUint32_CIDRMask)
  then have "ipToUint32 ?N AND NOT (mask (nat (32 - ?p))) = ipToUint32 ?N" by (simp add: a)
  then show "ipToUint32 ?N AND mask (nat (32 - ?p)) = 0" by (rule and_not_mask_aligned)
  let ?w = "calculateWildcardMask (CIDRMask ?p 32)"
  have lw: "length ?w = 4" using lm by (simp add: calculateWildcardMask_def)
  have B: "BroadcastAddr info = map (\<lambda>i. ?N ! i OR ?w ! i) [0..<length ?N]"
    using b l lw by (simp add: calculateBroadcastAddress_def)
  show "ipToUint32 (BroadcastAddr info) = ipToUint32 ?N OR mask (nat (32 - ?p))"
    unfolding B using ipToUint32_OR[OF l lw] p by (simp add: ipToUint32_wildcard)
  show "length (BroadcastAddr info) = 4" unfolding B using l by simp
qed

text \<open>
  Claim C4. For the descriptor of an IPv4 block with a prefix length from 0 to 31,
  \<open>CalculateSubnets\<close> returns two subnets whose address ranges, each from its network
  id to its broadcast address, are not empty, do not overlap, follow one another without
  a gap and together are the range of the parent, from its network id to its broadcast
  address.
\<close>

theorem subnets_partition:
  assumes "descriptor info" "PrefixLength info \<le> 31"
  shows "\<exists>s1 s2. CalculateSubnets info = Inr [s1, s2]
     \<and> addrRange (SubnetNetworkID s1) (SubnetBroadcastAddr s1)
         \<union> addrRange (SubnetNetworkID s2) (SubnetBroadcastAddr s2)
         = addrRange (NetworkID info) (BroadcastAddr info)
     \<and> addrRange (SubnetNetworkID s1) (SubnetBroadcastAddr s1)
         \<inter> addrRange (SubnetNetworkID s2) (SubnetBroadcastAddr s2) = {}
     \<and> unat (ipToUint32 (SubnetNetworkID s1)) \<le> unat (ipToUint32 (SubnetBroadcastAddr s1))
     \<and> unat (ipToUint32 (SubnetBroadcastAddr s1)) + 1 = unat (ipToUint32 (SubnetNetworkID s2))
     \<and> unat (ipToUint32 (SubnetNetworkID s2)) \<le> unat (ipToUint32 (SubnetBroadcastAddr s2))
     \<and> SubnetNetworkID s1 = NetworkID info
     \<and> SubnetBroadcastAddr s2 = BroadcastAddr info"
proof -
  let ?p = "PrefixLength info" and ?N = "NetworkID info"
  define k where "k = nat (31 - ?p)"
  from assms have p: "0 \<le> ?p" "?p < 32" and l: "length ?N = 4"
    by (auto simp: descriptor_def)
  have k: "k < 32" "nat (32 - ?p) = Suc k" using p by (auto simp: k_def)
  note dw = descriptor_words[OF assms(1), unfolded k(2)]
  from CalculateSubnets_two[OF p l] obtain B1 B2 where
    cs: "CalculateSubnets info =
       Inr [\<lparr>SubnetNetworkID = ?N, CIDR = ipString ?N @ ''/'' @ intText (?p + 1),
              SubnetBroadcastAddr = B1\<rparr>,
            \<lparr>SubnetNetworkID = uint32Bytes (ipToUint32 ?N + 2 ^ k),
              CIDR = ipString (uint32Bytes (ipToUint32 ?N + 2 ^ k)) @ ''/'' @ intText (?p + 1),
              SubnetBroadcastAddr = B2\<rparr>]"
    and lB: "length B1 = 4" "length B2 = 4"
    and B1: "ipToUint32 B1 = ipToUint32 ?N OR mask k"
    and B2: "ipToUint32 B2 = (ipToUint32 ?N + 2 ^ k) OR mask k"
    unfolding k_def by blast
  note sb = split_block[OF k(1) dw(1)]
  have eqB: "ipToUint32 B2 = ipToUint32 (BroadcastAddr info)"
    by (simp add: B2 sb(4) dw(2))
  then have B2eq: "B2 = BroadcastAddr info"
    using lB(2) dw(3) by (intro ipToUint32_inj) auto
  define a where "a = unat (ipToUint32 ?N)"
  define s :: nat where "s = 2 ^ k"
  define b1 where "b1 = unat (ipToUint32 B1)"
  define n2 where "n2 = unat (ipToUint32 (uint32Bytes (ipToUint32 ?N + 2 ^ k)))"
  define b2 where "b2 = unat (ipToUint32 (BroadcastAddr info))"
  have s: "1 \<le> s" by (simp add: s_def)
  have r1: "b1 + 1 = a + s" using sb(1) by (simp add: B1 a_def s_def b1_def)
  have r2: "n2 = a + s" using sb(3) by (simp add: a_def s_def n2_def)
  have r3: "b2 + 1 = a + s + s" using sb(5) by (simp add: B2[symmetric] eqB a_def s_def b2_def)
  have u: "{a .. b1} \<union> {n2 .. b2} = {a .. b2}" using r1 r2 r3 s by auto
  have i: "{a .. b1} \<inter> {n2 .. b2} = {}" using r1 r2 r3 s by auto
  define s1 where "s1 = \<lparr>SubnetNetworkID = ?N, CIDR = ipString ?N @ ''/'' @ intText (?p + 1),
              SubnetBroadcastAddr = B1\<rparr>"
  define s2 where "s2 = \<lparr>SubnetNetworkID = uint32Bytes (ipToUint32 ?N + 2 ^ k),
              CIDR = ipString (uint32Bytes (ipToUint32 ?N + 2 ^ k)) @ ''/'' @ intText (?p + 1),
              SubnetBroadcastAddr = BroadcastAddr info\<rparr>"
  have c: "CalculateSubnets info = Inr [s1, s2]"
    unfolding s1_def s2_def B2eq[symmetric] by (rule cs)
  have f: "SubnetNetworkID s1 = ?N" "SubnetBroadcastAddr s1 = B1"
          "SubnetNetworkID s2 = uint32Bytes (ipToUint32 ?N + 2 ^ k)"
          "SubnetBroadcastAddr s2 = BroadcastAddr info"
    by (simp_all add: s1_def s2_def)
  have g: "addrRange (SubnetNetworkID s1) (SubnetBroadcastAddr s1) = {a .. b1}"
          "addrRange (SubnetNetworkID s2) (SubnetBroadcastAddr s2) = {n2 .. b2}"
          "addrRange ?N (BroadcastAddr info) = {a .. b2}"
    unfolding f addrRange_def a_def b1_def n2_def b2_def by (rule refl)+
  have h: "unat (ipToUint32 (SubnetNetworkID s1)) = a"
          "unat (ipToUint32 (SubnetBroadcastAddr s1)) = b1"
          "unat (ipToUint32 (SubnetNetworkID s2)) = n2"
          "unat (ipToUint32 (SubnetBroadcastAddr s2)) = b2"
    unfolding f a_def b1_def n2_def b2_def by (rule refl)+
  have "CalculateSubnets info = Inr [s1, s2]
     \<and> addrRange (SubnetNetworkID s1) (SubnetBroadcastAddr s1)
         \<union> addrRange (SubnetNetworkID s2) (SubnetBroadcastAddr s2)
         = addrRange (NetworkID info) (BroadcastAddr info)
     \<and> addrRange (SubnetNetworkID s1) (SubnetBroadcastAddr s1)
         \<inter> addrRange (SubnetNetworkID s2) (SubnetBroadcastAddr s2) = {}
     \<and> unat (ipToUint32 (SubnetNetworkID s1)) \<le> unat (ipToUint32 (SubnetBroadcastAddr s1))
     \<and> unat (ipToUint32 (SubnetBroadcastAddr s1)) + 1 = unat (ipToUint32 (SubnetNetworkID s2))
     \<and> unat (ipToUint32 (SubnetNetworkID s2)) \<le> unat (ipToUint32 (SubnetBroadcastAddr s2))
     \<and> SubnetNetworkID s1 = NetworkID info
     \<and> SubnetBroadcastAddr s2 = BroadcastAddr info"
    unfolding g h using c u i r1 r2 r3 s f(1) f(4) by auto
  then show ?thesis by blast
qed

theorem subnets_partition_witness:
  "descriptor
      \<lparr>Network = ([192, 168, 1, 0], [255, 255, 255, 0]), NetworkID = [192, 168, 1, 0],
       BroadcastAddr = [192, 168, 1, 255], SubnetMask = [255, 255, 255, 0],
       WildcardMask = [0, 0, 0, 255], FirstUsableIP = [192, 168, 1, 1],
       LastUsableIP = [192, 168, 1, 254], TotalHosts = 254, PrefixLength = 24\<rparr>
   \<and> (\<exists>s1 s2. CalculateSubnets
      \<lparr>Network = ([192, 168, 1, 0], [255, 255, 255, 0]), NetworkID = [192, 168, 1, 0],
       BroadcastAddr = [192, 168, 1, 255], SubnetMask = [255, 255, 255, 0],
       WildcardMask = [0, 0, 0, 255], FirstUsableIP = [192, 168, 1, 1],
       LastUsableIP = [192, 168, 1, 254], TotalHosts = 254, PrefixLength = 24\<rparr> = Inr [s1, s2]
     \<and> addrRange (SubnetNetworkID s1) (SubnetBroadcastAddr s1)
         \<union> addrRange (SubnetNetworkID s2) (SubnetBroadcastAddr s2)
         = addrRange [192, 168, 1, 0] [192, 168, 1, 255]
     \<and> addrRange (SubnetNetworkID s1) (SubnetBroadcastAddr s1)
         \<inter> addrRange (SubnetNetworkID s2) (SubnetBroadcastAddr s2) = {}
     \<and> unat (ipToUint32 (SubnetBroadcastAddr s1)) + 1 = unat (ipToUint32 (SubnetNetworkID s2)))"
proof -
  have d: "descriptor
      \<lparr>Network = ([192, 168, 1, 0], [255, 255, 255, 0]), NetworkID = [192, 168, 1, 0],
       BroadcastAddr = [192, 168, 1, 255], SubnetMask = [255, 255, 255, 0],
       WildcardMask = [0, 0, 0, 255], FirstUsableIP = [192, 168, 1, 1],
       LastUsableIP = [192, 168, 1, 254], TotalHosts = 254, PrefixLength = 24\<rparr>"
    by code_simp
  from subnets_partition[OF d] d show ?thesis by auto
qed

section \<open>The descriptor built by ParseCIDR\<close>

lemma length_moveUp [simp]: "length (moveUp ip n e k) = length ip"
  by (induction k arbitrary: ip) simp_all

lemma length_zeroFill [simp]: "length (zeroFill ip e k) = length ip"
  by (induction k arbitrary: ip) simp_all

lemma parseIPv6Loop_length:
  "parseIPv6Loop s i ip e = Some (s', i', ip', e') \<Longrightarrow> length ip' = length ip"
proof (induction "16 - i" arbitrary: s i ip e rule: less_induct)
  case less
  note IH = less.hyps
  note pr = less.prems
  show ?case
  proof (cases "i < 16")
    case False
    then show ?thesis using pr by (subst (asm) parseIPv6Loop.simps) simp
  next
    case True
    obtain n c ok where x: "xtoi s = (n, c, ok)" by (cases "xtoi s") auto
    have ok: "ok" "\<not> n > 65535"
      using pr True x by (subst (asm) parseIPv6Loop.simps, simp split: if_splits)+
    show ?thesis
    proof (cases "c < length s \<and> s ! c = CHR ''.''")
      case dot: True
      then show ?thesis
        using pr True x ok
        by (subst (asm) parseIPv6Loop.simps) (auto split: if_splits option.splits)
    next
      case nodot: False
      define ip1 where "ip1 = ip[i := word_of_int (n div 256), i + 1 := word_of_int n]"
      define s1 where "s1 = drop c s"
      have l1: "length ip1 = length ip" by (simp add: ip1_def)
      have m: "16 - (i + 2) < 16 - i" using True by simp
      have step: "parseIPv6Loop s i ip e =
             (if s1 = [] then Some (s1, i + 2, ip1, e)
                else if hd s1 \<noteq> CHR '':'' \<or> length s1 = 1 then None
                else (let s2 = tl s1
                      in if hd s2 = CHR '':'' then
                           (if e \<ge> 0 then None
                            else if tl s2 = [] then Some ([], i + 2, ip1, int (i + 2))
                            else parseIPv6Loop (tl s2) (i + 2) ip1 (int (i + 2)))
                         else parseIPv6Loop s2 (i + 2) ip1 e))"
        using True x ok nodot
        by (subst parseIPv6Loop.simps) (simp add: Let_def ip1_def s1_def)
      show ?thesis
        using pr[unfolded step] IH[OF m] l1
        by (auto simp: Let_def split: if_splits)
    qed
  qed
qed

lemma parseIPv6_length:
  assumes "parseIPv6 s = Some ip"
  shows "length ip = 16"
proof -
  have L: "length ip' = 16"
    if "parseIPv6Loop s1 0 (replicate 16 0) e = Some (s', i', ip', e')" for s1 e s' i' ip' e'
    using parseIPv6Loop_length[OF that] by simp
  show ?thesis
    using assms unfolding parseIPv6_def
    by (auto simp: Let_def split: if_splits option.splits dest!: L)
qed

lemma parseIPv4_form: "parseIPv4 s = Some ip \<Longrightarrow> length ip = 16 \<and> take 12 ip = v4InV6Prefix"
  unfolding parseIPv4_def
  by (auto simp: IPv4_def v4InV6Prefix_def split: option.splits if_splits)

lemma netParseCIDR_Some:
  assumes "netParseCIDR s = Some (ip, netIP, m)"
  shows "\<exists>n bits. (bits = 32 \<and> take 12 ip = v4InV6Prefix \<or> bits = 128)
            \<and> length ip = 16 \<and> 0 \<le> n \<and> n \<le> bits \<and> m = CIDRMask n bits \<and> netIP = Mask ip m"
proof -
  let ?addr = "takeWhile (\<lambda>c. c \<noteq> CHR ''/'') s"
  let ?mask = "tl (dropWhile (\<lambda>c. c \<noteq> CHR ''/'') s)"
  obtain n i ok where d: "dtoi ?mask = (n, i, ok)" by (cases "dtoi ?mask") auto
  show ?thesis
  proof (cases "parseIPv4 ?addr")
    case None
    with assms d obtain ip6 where "parseIPv6 ?addr = Some ip6" "ip = ip6"
       "0 \<le> n" "n \<le> 128" "m = CIDRMask n 128" "netIP = Mask ip m"
      by (auto simp: netParseCIDR_def Let_def split: if_splits)
    then show ?thesis using parseIPv6_length by auto
  next
    case (Some ip4)
    with assms d have "ip = ip4" "0 \<le> n" "n \<le> 32" "m = CIDRMask n 32" "netIP = Mask ip m"
      by (auto simp: netParseCIDR_def Let_def split: if_splits)
    then show ?thesis using parseIPv4_form[OF Some] by auto
  qed
qed

lemma lt8_cases:
  assumes "(n::nat) < 8"
  obtains "n = 0" | "n = 1" | "n = 2" | "n = 3" | "n = 4" | "n = 5" | "n = 6" | "n = 7"
  using assms by linarith

lemma partial_byte_values:
  "NOT (drop_bit 0 (255::byte)) = 0" "NOT (drop_bit 1 (255::byte)) = 128"
  "NOT (drop_bit 2 (255::byte)) = 192" "NOT (drop_bit 3 (255::byte)) = 224"
  "NOT (drop_bit 4 (255::byte)) = 240" "NOT (drop_bit 5 (255::byte)) = 248"
  "NOT (drop_bit 6 (255::byte)) = 252" "NOT (drop_bit 7 (255::byte)) = 254"
  by simp_all

lemma countLeadingOnes_partial:
  assumes "n < 8"
  shows "countLeadingOnes (NOT (drop_bit n (255::byte))) acc = (acc + int n, 0)"
  using assms
  by (cases rule: lt8_cases) (simp_all add: partial_byte_values countLeadingOnes.simps)

lemma partial_byte_not_255:
  assumes "n < 8"
  shows "NOT (drop_bit n (255::byte)) \<noteq> 255"
  using assms by (cases rule: lt8_cases) (simp_all add: partial_byte_values)

lemma cidrMaskLoop_zero: "cidrMaskLoop l 0 = replicate l 0"
  by (induction l) simp_all

lemma simpleMaskLength_cidrMaskLoop:
  "n \<le> 8 * l \<Longrightarrow> simpleMaskLength (cidrMaskLoop l n) acc = acc + int n"
proof (induction l arbitrary: n acc)
  case 0
  then show ?case by simp
next
  case (Suc l)
  show ?case
  proof (cases "8 \<le> n")
    case True
    then have "n - 8 \<le> 8 * l" using Suc.prems by simp
    from Suc.IH[OF this, of "acc + 8"] True show ?thesis by simp
  next
    case False
    then have n: "n < 8" by simp
    show ?thesis
      using n by (simp add: countLeadingOnes_partial partial_byte_not_255 cidrMaskLoop_zero
                            list_ex_iff)
  qed
qed

lemma Size_CIDRMask:
  assumes "bits = 32 \<or> bits = 128" "0 \<le> n" "n \<le> bits"
  shows "Size (CIDRMask n bits) = (n, bits)"
proof -
  have c: "CIDRMask n bits = cidrMaskLoop (nat (bits div 8)) (nat n)"
    using assms by (auto simp: CIDRMask_def)
  have "nat n \<le> 8 * nat (bits div 8)" using assms by auto
  then have "simpleMaskLength (CIDRMask n bits) 0 = n"
    using assms by (simp add: c simpleMaskLength_cidrMaskLoop)
  then show ?thesis using assms by (auto simp: Size_def Let_def c)
qed

lemma length_CIDRMask:
  assumes "bits = 32 \<or> bits = 128" "0 \<le> n" "n \<le> bits"
  shows "int (length (CIDRMask n bits)) * 8 = bits"
  using assms by (auto simp: CIDRMask_def)

lemma maskBit_CIDRMask:
  assumes "bits = 32 \<or> bits = 128" "0 \<le> n" "n \<le> bits" "i < 8 * length (CIDRMask n bits)"
  shows "maskBit (CIDRMask n bits) i \<longleftrightarrow> int i < n"
proof -
  have c: "CIDRMask n bits = cidrMaskLoop (nat (bits div 8)) (nat n)"
    using assms by (auto simp: CIDRMask_def)
  have "maskBit (cidrMaskLoop (nat (bits div 8)) (nat n)) i \<longleftrightarrow> i < nat n"
    using assms(4) unfolding c by (intro maskBit_cidrMaskLoop) simp
  moreover have "i < nat n \<longleftrightarrow> int i < n" using assms(2) by linarith
  ultimately show ?thesis by (simp add: c)
qed

lemma Mask_16_4:
  assumes "length ip = 16" "take 12 ip = v4InV6Prefix" "length m = 4"
  shows "Mask ip m = map (\<lambda>i. drop 12 ip ! i AND m ! i) [0..<4]"
  using assms by (simp add: Mask_def Let_def)

lemma Mask_16_16:
  assumes "length ip = 16" "length m = 16"
  shows "Mask ip m = map (\<lambda>i. ip ! i AND m ! i) [0..<16]"
  using assms by (simp add: Mask_def Let_def)

lemma calculateUsableRange_fields [simp]:
  "NetworkID (calculateUsableRange info) = NetworkID info"
  "BroadcastAddr (calculateUsableRange info) = BroadcastAddr info"
  "SubnetMask (calculateUsableRange info) = SubnetMask info"
  "WildcardMask (calculateUsableRange info) = WildcardMask info"
  "PrefixLength (calculateUsableRange info) = PrefixLength info"
  "Network (calculateUsableRange info) = Network info"
  by (simp_all add: calculateUsableRange_def Let_def)

lemma ParseCIDR_Inr:
  assumes "ParseCIDR cidr = Inr info"
  obtains ip netIP m broadcast where
    "validateCIDRFormat cidr = None"
    "netParseCIDR cidr = Some (ip, netIP, m)"
    "To4 ip \<noteq> None"
    "calculateBroadcastAddress netIP (calculateWildcardMask m) = Inr broadcast"
    "info = calculateUsableRange
              \<lparr>Network = (netIP, m), NetworkID = netIP, BroadcastAddr = broadcast,
               SubnetMask = m, WildcardMask = calculateWildcardMask m, FirstUsableIP = [],
               LastUsableIP = [], TotalHosts = 0, PrefixLength = fst (Size m)\<rparr>"
  using assms unfolding ParseCIDR_def
  by (auto simp: Let_def split: option.splits if_splits sum.splits)

lemma Mask_idem:
  assumes "length a = length m" "length m = 4"
  shows "Mask (map (\<lambda>i. a ! i AND m ! i) [0..<4]) m = map (\<lambda>i. a ! i AND m ! i) [0..<4]"
proof -
  have "Mask (map (\<lambda>i. a ! i AND m ! i) [0..<4]) m
      = map (\<lambda>i. map (\<lambda>i. a ! i AND m ! i) [0..<4] ! i AND m ! i) [0..<4]"
    using assms by (simp add: Mask_def Let_def)
  also have "\<dots> = map (\<lambda>i. a ! i AND m ! i) [0..<4]"
    by (simp add: upt4 and.assoc)
  finally show ?thesis .
qed

text \<open>
  Claim C5. Whenever \<open>ParseCIDR\<close> succeeds, the descriptor it returns satisfies: the
  subnet mask has one-bits exactly at its first \<open>PrefixLength\<close> positions and zero-bits
  after them; the wildcard mask is the bytewise complement of the subnet mask; the network
  id is the address the text denotes, whether or not it is the first address of its block,
  combined bytewise by AND with the subnet mask; the broadcast address is the network id
  combined bytewise by OR with the wildcard mask. For a four-byte mask the same holds of
  the 32-bit numbers, and the result is a descriptor in the sense of \<open>descriptor\<close>.
\<close>

theorem descriptor_invariants:
  assumes "ParseCIDR cidr = Inr info"
  shows "\<exists>ip netIP m.
      netParseCIDR cidr = Some (ip, netIP, m)
    \<and> (parseIPv4 (takeWhile (\<lambda>c. c \<noteq> CHR ''/'') cidr) = Some ip
       \<or> parseIPv6 (takeWhile (\<lambda>c. c \<noteq> CHR ''/'') cidr) = Some ip)
    \<and> SubnetMask info = m
    \<and> 0 \<le> PrefixLength info \<and> PrefixLength info \<le> int (8 * length (SubnetMask info))
    \<and> (\<forall>i < 8 * length (SubnetMask info).
          maskBit (SubnetMask info) i \<longleftrightarrow> int i < PrefixLength info)
    \<and> WildcardMask info = map (\<lambda>b. NOT b) (SubnetMask info)
    \<and> NetworkID info = Mask ip (SubnetMask info)
    \<and> length (NetworkID info) = length (SubnetMask info)
    \<and> length (BroadcastAddr info) = length (SubnetMask info)
    \<and> (\<forall>i < length (SubnetMask info).
          NetworkID info ! i
            = (if length (SubnetMask info) = 4 then drop 12 ip else ip) ! i AND SubnetMask info ! i
        \<and> BroadcastAddr info ! i = NetworkID info ! i OR WildcardMask info ! i)
    \<and> (length (SubnetMask info) = 4 \<longrightarrow>
          ipToUint32 (SubnetMask info) = NOT (mask (nat (32 - PrefixLength info)))
        \<and> ipToUint32 (WildcardMask info) = NOT (ipToUint32 (SubnetMask info))
        \<and> ipToUint32 (NetworkID info)
            = ipToUint32 (drop 12 ip) AND ipToUint32 (SubnetMask info)
        \<and> ipToUint32 (BroadcastAddr info)
            = ipToUint32 (NetworkID info) OR ipToUint32 (WildcardMask info)
        \<and> descriptor info)"
proof -
  from assms obtain ip netIP m broadcast where
        np: "netParseCIDR cidr = Some (ip, netIP, m)"
    and bc: "calculateBroadcastAddress netIP (calculateWildcardMask m) = Inr broadcast"
    and info: "info = calculateUsableRange
              \<lparr>Network = (netIP, m), NetworkID = netIP, BroadcastAddr = broadcast,
               SubnetMask = m, WildcardMask = calculateWildcardMask m, FirstUsableIP = [],
               LastUsableIP = [], TotalHosts = 0, PrefixLength = fst (Size m)\<rparr>"
    by (rule ParseCIDR_Inr)
  let ?addr = "takeWhile (\<lambda>c. c \<noteq> CHR ''/'') cidr"
  have src: "parseIPv4 ?addr = Some ip \<or> parseIPv6 ?addr = Some ip"
    using np by (auto simp: netParseCIDR_def Let_def split: if_splits prod.splits)
  from netParseCIDR_Some[OF np] obtain n bits where
        b: "bits = 32 \<and> take 12 ip = v4InV6Prefix \<or> bits = 128"
    and lip: "length ip = 16" and n: "0 \<le> n" "n \<le> bits"
    and m: "m = CIDRMask n bits" and netIP: "netIP = Mask ip m"
    by blast
  have b': "bits = 32 \<or> bits = 128" using b by auto
  have f: "SubnetMask info = m" "WildcardMask info = map (\<lambda>b. NOT b) m"
          "NetworkID info = netIP" "BroadcastAddr info = broadcast"
    by (simp_all add: info calculateWildcardMask_def)
  have sz: "Size m = (n, bits)" unfolding m using b' n by (rule Size_CIDRMask)
  have p: "PrefixLength info = n" by (simp add: info sz)
  have lm: "int (length m) * 8 = bits" unfolding m using b' n by (rule length_CIDRMask)
  have lm': "length m = 4 \<and> bits = 32 \<or> length m = 16 \<and> bits = 128" using lm b' by auto
  have mb: "maskBit m i \<longleftrightarrow> int i < n" if "i < 8 * length m" for i
    using that unfolding m by (intro maskBit_CIDRMask b' n)
  have nid: "netIP = map (\<lambda>i. (if length m = 4 then drop 12 ip else ip) ! i AND m ! i)
                        [0..<length m]"
    using lm' b lip netIP by (auto simp: Mask_16_4 Mask_16_16)
  have ln: "length netIP = length m" by (subst nid) simp
  have lw: "length (calculateWildcardMask m) = length m" by (simp add: calculateWildcardMask_def)
  have br: "broadcast = map (\<lambda>i. netIP ! i OR calculateWildcardMask m ! i) [0..<length m]"
    using bc ln lw by (simp add: calculateBroadcastAddress_def)
  have lb: "length broadcast = length m" by (subst br) simp
  have nth: "netIP ! i = (if length m = 4 then drop 12 ip else ip) ! i AND m ! i
           \<and> broadcast ! i = netIP ! i OR map (\<lambda>b. NOT b) m ! i" if "i < length m" for i
  proof -
    have "netIP ! i = (if length m = 4 then drop 12 ip else ip) ! i AND m ! i"
      using that by (subst nid) simp
    moreover have "broadcast ! i = netIP ! i OR calculateWildcardMask m ! i"
      using that by (subst br) simp
    ultimately show ?thesis by (simp add: calculateWildcardMask_def)
  qed
  have w32: "ipToUint32 m = NOT (mask (nat (32 - n)))
        \<and> ipToUint32 (map (\<lambda>b. NOT b) m) = NOT (ipToUint32 m)
        \<and> ipToUint32 netIP = ipToUint32 (drop 12 ip) AND ipToUint32 m
        \<and> ipToUint32 broadcast = ipToUint32 netIP OR ipToUint32 (map (\<lambda>b. NOT b) m)
        \<and> descriptor info" if l4: "length m = 4"
  proof -
    have bits: "bits = 32" using lm l4 by simp
    have n32: "n \<le> 32" using n bits by simp
    have m32: "m = CIDRMask n 32" using m bits by simp
    have ld: "length (drop 12 ip) = 4" using lip by simp
    have 1: "ipToUint32 m = NOT (mask (nat (32 - n)))"
      unfolding m32 using n(1) n32 by (rule ipToUint32_CIDRMask)
    have 2: "ipToUint32 (map (\<lambda>b. NOT b) m) = NOT (ipToUint32 m)"
      using l4 by (rule ipToUint32_map_NOT)
    have nid4: "netIP = map (\<lambda>i. drop 12 ip ! i AND m ! i) [0..<length (drop 12 ip)]"
      using nid l4 ld by simp
    have 3: "ipToUint32 netIP = ipToUint32 (drop 12 ip) AND ipToUint32 m"
      by (subst nid4) (rule ipToUint32_AND[OF ld l4])
    have ln4: "length netIP = 4" using ln l4 by simp
    have lw4: "length (map (\<lambda>b. NOT b) m) = 4" using l4 by simp
    have br4: "broadcast = map (\<lambda>i. netIP ! i OR map (\<lambda>b. NOT b) m ! i) [0..<length netIP]"
      using br ln4 l4 by (simp add: calculateWildcardMask_def)
    have 4: "ipToUint32 broadcast = ipToUint32 netIP OR ipToUint32 (map (\<lambda>b. NOT b) m)"
      by (subst br4) (rule ipToUint32_OR[OF ln4 lw4])
    have idem: "Mask netIP m = netIP"
      using Mask_idem[of "drop 12 ip" m] nid l4 ld by simp
    have 5: "descriptor info"
      unfolding descriptor_def f p
      using n(1) n32 ln4 m32 idem bc by (simp add: calculateWildcardMask_def)
    show ?thesis using 1 2 3 4 5 by simp
  qed
  have "netParseCIDR cidr = Some (ip, netIP, m)
    \<and> (parseIPv4 ?addr = Some ip \<or> parseIPv6 ?addr = Some ip)
    \<and> SubnetMask info = m
    \<and> 0 \<le> PrefixLength info \<and> PrefixLength info \<le> int (8 * length (SubnetMask info))
    \<and> (\<forall>i < 8 * length (SubnetMask info).
          maskBit (SubnetMask info) i \<longleftrightarrow> int i < PrefixLength info)
    \<and> WildcardMask info = map (\<lambda>b. NOT b) (SubnetMask info)
    \<and> NetworkID info = Mask ip (SubnetMask info)
    \<and> length (NetworkID info) = length (SubnetMask info)
    \<and> length (BroadcastAddr info) = length (SubnetMask info)
    \<and> (\<forall>i < length (SubnetMask info).
          NetworkID info ! i
            = (if length (SubnetMask info) = 4 then drop 12 ip else ip) ! i AND SubnetMask info ! i
        \<and> BroadcastAddr info ! i = NetworkID info ! i OR WildcardMask info ! i)
    \<and> (length (SubnetMask info) = 4 \<longrightarrow>
          ipToUint32 (SubnetMask info) = NOT (mask (nat (32 - PrefixLength info)))
        \<and> ipToUint32 (WildcardMask info) = NOT (ipToUint32 (SubnetMask info))
        \<and> ipToUint32 (NetworkID info)
            = ipToUint32 (drop 12 ip) AND ipToUint32 (SubnetMask info)
        \<and> ipToUint32 (BroadcastAddr info)
            = ipToUint32 (NetworkID info) OR ipToUint32 (WildcardMask info)
        \<and> descriptor info)"
    unfolding f p
    using np src n lm mb netIP ln lb nth w32 by auto
  then show ?thesis by blast
qed

theorem descriptor_invariants_witness:
  "ParseCIDR ''192.168.1.77/20''
     = Inr \<lparr>Network = ([192, 168, 0, 0], [255, 255, 240, 0]), NetworkID = [192, 168, 0, 0],
            BroadcastAddr = [192, 168, 15, 255], SubnetMask = [255, 255, 240, 0],
            WildcardMask = [0, 0, 15, 255], FirstUsableIP = [192, 168, 0, 1],
            LastUsableIP = [192, 168, 15, 254], TotalHosts = 4094, PrefixLength = 20\<rparr>
   \<and> descriptor
         \<lparr>Network = ([192, 168, 0, 0], [255, 255, 240, 0]), NetworkID = [192, 168, 0, 0],
          BroadcastAddr = [192, 168, 15, 255], SubnetMask = [255, 255, 240, 0],
          WildcardMask = [0, 0, 15, 255], FirstUsableIP = [192, 168, 0, 1],
          LastUsableIP = [192, 168, 15, 254], TotalHosts = 4094, PrefixLength = 20\<rparr>
   \<and> ipToUint32 [255, 255, 240, 0] = NOT (mask 12)
   \<and> ipToUint32 [192, 168, 15, 255] = ipToUint32 [192, 168, 0, 0] OR ipToUint32 [0, 0, 15, 255]"
proof -
  have e: "ParseCIDR ''192.168.1.77/20''
     = Inr \<lparr>Network = ([192, 168, 0, 0], [255, 255, 240, 0]), NetworkID = [192, 168, 0, 0],
            BroadcastAddr = [192, 168, 15, 255], SubnetMask = [255, 255, 240, 0],
            WildcardMask = [0, 0, 15, 255], FirstUsableIP = [192, 168, 0, 1],
            LastUsableIP = [192, 168, 15, 254], TotalHosts = 4094, PrefixLength = 20\<rparr>"
    by code_simp
  from descriptor_invariants[OF e] show ?thesis using e by auto
qed

end
